theory Spec2Isabelle
  imports Main "HOL-Library.AList"
begin

section \<open>Name pattern expansion (dcim/views.py, expand\_pattern)\<close>

text \<open>
  Python exceptions that the modelled code can raise. \<open>ValueError\<close> is what tuple
  unpacking raises when \<open>re.split\<close> returns a list that does not have three elements.
\<close>

datatype py_error = ValueError

text \<open>
  The regular expression \<open>EXPANSION_PATTERN = '\[(\d+-\d+)\]'\<close>: an opening bracket, one or
  more decimal digits, a dash, one or more decimal digits, a closing bracket. The group is
  the text between the brackets.
\<close>

definition is_digit :: "char \<Rightarrow> bool" where
  \<comment> \<open>\<open>\d\<close>: the characters \<open>0\<close> (code 48) to \<open>9\<close> (code 57)\<close>
  "is_digit c = (48 \<le> (of_char c :: nat) \<and> (of_char c :: nat) \<le> 57)"

text \<open>
  \<open>match_token s\<close> tries to match the expression at the very start of \<open>s\<close> and returns the
  group and the text after the match. The digit runs are maximal, since the character
  after each run has to be a non-digit (\<open>-\<close> or \<open>]\<close>).
\<close>

definition match_token :: "string \<Rightarrow> (string \<times> string) option" where
  "match_token s =
     (case s of
        [] \<Rightarrow> None
      | c # r \<Rightarrow>
          if c \<noteq> CHR ''['' then None
          else
            let x = takeWhile is_digit r; r1 = dropWhile is_digit r in
            if x = [] then None
            else
              (case r1 of
                 [] \<Rightarrow> None
               | d # r2 \<Rightarrow>
                   if d \<noteq> CHR ''-'' then None
                   else
                     let y = takeWhile is_digit r2; r3 = dropWhile is_digit r2 in
                     if y = [] then None
                     else
                       (case r3 of
                          [] \<Rightarrow> None
                        | e # r4 \<Rightarrow>
                            if e \<noteq> CHR '']'' then None
                            else Some (x @ ''-'' @ y, r4))))"

text \<open>
  \<open>re.split(EXPANSION_PATTERN, string, maxsplit=1)\<close>: the list
  \<open>[lead, group, remnant]\<close> for the leftmost match, or the one-element list \<open>[string]\<close>
  when the expression matches nowhere.
\<close>

fun re_split :: "string \<Rightarrow> string list" where
  "re_split [] = [[]]"
| "re_split (c # cs) =
     (case match_token (c # cs) of
        Some (g, rest) \<Rightarrow> [[], g, rest]
      | None \<Rightarrow>
          (case re_split cs of
             [lead, g, rest] \<Rightarrow> [c # lead, g, rest]
           | _ \<Rightarrow> [c # cs]))"

text \<open>\<open>pattern.split('-')\<close>: the pieces of the string between dashes.\<close>

fun str_split_dash :: "string \<Rightarrow> string list" where
  "str_split_dash [] = [[]]"
| "str_split_dash (c # cs) =
     (if c = CHR ''-'' then [] # str_split_dash cs
      else (case str_split_dash cs of
              [] \<Rightarrow> [[c]]
            | p # ps \<Rightarrow> (c # p) # ps))"

text \<open>\<open>int(x)\<close> on a string of decimal digits.\<close>

definition digit_val :: "char \<Rightarrow> nat" where
  "digit_val c = of_char c - 48"

definition py_int :: "string \<Rightarrow> int" where
  "py_int s = int (foldl (\<lambda>a c. 10 * a + digit_val c) 0 s)"

text \<open>\<open>"{}".format(i)\<close> for a non-negative integer: its decimal numeral.\<close>

definition digit_char :: "nat \<Rightarrow> char" where
  "digit_char n = char_of (48 + n)"

fun str_nat :: "nat \<Rightarrow> string" where
  "str_nat n = (if n < 10 then [digit_char n] else str_nat (n div 10) @ [digit_char (n mod 10)])"

declare str_nat.simps [simp del]

definition py_str :: "int \<Rightarrow> string" where
  "py_str i = (if i < 0 then CHR ''-'' # str_nat (nat (- i)) else str_nat (nat i))"

text \<open>
  Draining a generator whose body is a \<open>for\<close> loop: the items of every iteration in turn;
  an exception raised in an iteration ends the whole run with that exception.
\<close>

fun for_loop :: "'i list \<Rightarrow> ('i \<Rightarrow> py_error + 'a list) \<Rightarrow> py_error + 'a list" where
  "for_loop [] body = Inr []"
| "for_loop (i # is) body =
     (case body i of
        Inl e \<Rightarrow> Inl e
      | Inr ys \<Rightarrow> (case for_loop is body of Inl e \<Rightarrow> Inl e | Inr zs \<Rightarrow> Inr (ys @ zs)))"

definition map_result :: "('a \<Rightarrow> 'b) \<Rightarrow> py_error + 'a list \<Rightarrow> py_error + 'b list" where
  "map_result f r = (case r of Inl e \<Rightarrow> Inl e | Inr xs \<Rightarrow> Inr (map f xs))"

text \<open>
  \<open>expand_pattern string\<close>, as \<open>list(expand_pattern(string))\<close>: the names the generator
  yields, or the exception that ends it.

  The unpacking \<open>lead, pattern, remnant = re.split(...)\<close> raises \<open>ValueError\<close> unless the
  list has three elements, and so does \<open>x, y = pattern.split('-')\<close> unless it has two.
  \<open>range(int(x), int(y) + 1)\<close> is \<open>[x..y]\<close>, empty when \<open>y < x\<close>.
\<close>

function expand_pattern :: "string \<Rightarrow> py_error + string list" where
  "expand_pattern s =
     (case re_split s of
        [lead, pattern, remnant] \<Rightarrow>
          (case str_split_dash pattern of
             [x, y] \<Rightarrow>
               if remnant \<noteq> [] then
                 for_loop [py_int x .. py_int y]
                   (\<lambda>i. map_result (\<lambda>r. lead @ py_str i @ r) (expand_pattern remnant))
               else
                 for_loop [py_int x .. py_int y] (\<lambda>i. Inr [lead @ py_str i])
           | _ \<Rightarrow> Inl ValueError)
      | _ \<Rightarrow> Inl ValueError)"
  by pat_completeness auto

lemma match_token_length:
  "match_token s = Some (g, rest) \<Longrightarrow> length rest < length s"
proof -
  have dw: "\<And>xs ys. dropWhile is_digit xs = ys \<Longrightarrow> length ys \<le> length xs"
    using length_dropWhile_le by blast
  assume "match_token s = Some (g, rest)"
  then show ?thesis
    unfolding match_token_def Let_def
    apply (simp split: list.splits if_splits)
    apply (metis dw le_imp_less_Suc less_Suc_eq_le less_SucI order_trans Suc_le_eq length_Cons)
    done
qed

lemma re_split_length:
  "re_split s = [lead, g, rest] \<Longrightarrow> length rest < length s"
proof (induction s arbitrary: lead)
  case Nil
  then show ?case by simp
next
  case (Cons c cs)
  show ?case
  proof (cases "match_token (c # cs)")
    case None
    with Cons.prems obtain l where "re_split cs = [l, g, rest]"
      by (auto split: list.splits)
    from Cons.IH [OF this] show ?thesis by simp
  next
    case (Some p)
    with Cons.prems have "match_token (c # cs) = Some (g, rest)"
      by (cases p) auto
    then show ?thesis by (rule match_token_length)
  qed
qed

termination expand_pattern
  by (relation "measure length") (auto dest: re_split_length)

declare expand_pattern.simps [simp del]

subsection \<open>Patterns built from segments\<close>

text \<open>
  A string of one or more decimal digits, the range token \<open>[a-b]\<close> written with decimal
  numerals, and text in which the expression matches nowhere.
\<close>

definition all_digits :: "string \<Rightarrow> bool" where
  "all_digits s = (s \<noteq> [] \<and> (\<forall>c \<in> set s. is_digit c))"

definition range_token :: "nat \<Rightarrow> nat \<Rightarrow> string" where
  "range_token a b = CHR ''['' # str_nat a @ CHR ''-'' # str_nat b @ [CHR '']'']"

definition token_free :: "string \<Rightarrow> bool" where
  "token_free s = (re_split s = [s])"

text \<open>
  A pattern that ends with a range token, as a list of segments \<open>(literal, start, end)\<close>:
  \<open>render\<close> writes it out, \<open>names_of\<close> lists the names with the leftmost range varying
  slowest, \<open>range_count\<close> is the product of the range sizes.
\<close>

fun render :: "(string \<times> nat \<times> nat) list \<Rightarrow> string" where
  "render [] = []"
| "render ((l, a, b) # segs) = l @ range_token a b @ render segs"

fun names_of :: "(string \<times> nat \<times> nat) list \<Rightarrow> string list" where
  "names_of [] = [[]]"
| "names_of ((l, a, b) # segs) =
     concat (map (\<lambda>i. map (\<lambda>r. l @ py_str i @ r) (names_of segs)) [int a .. int b])"

fun range_count :: "(string \<times> nat \<times> nat) list \<Rightarrow> nat" where
  "range_count [] = 1"
| "range_count ((l, a, b) # segs) = (Suc b - a) * range_count segs"

subsection \<open>Matching and splitting\<close>

lemma is_digit_simps [simp]:
  "\<not> is_digit CHR ''[''" "\<not> is_digit CHR '']''" "\<not> is_digit CHR ''-''"
  by (simp_all add: is_digit_def)

lemma takeWhile_stop:
  "\<not> P d \<Longrightarrow> takeWhile P (xs @ d # t) = takeWhile P xs"
  by (induction xs) auto

lemma dropWhile_stop:
  "\<not> P d \<Longrightarrow> dropWhile P (xs @ d # t) = dropWhile P xs @ d # t"
  by (induction xs) auto

lemma takeWhile_all: "\<forall>c \<in> set x. P c \<Longrightarrow> takeWhile P x = x"
  by (induction x) auto

lemma dropWhile_all: "\<forall>c \<in> set x. P c \<Longrightarrow> dropWhile P x = []"
  by (induction x) auto

lemma match_token_here:
  assumes "all_digits x" "all_digits y"
  shows "match_token (CHR ''['' # x @ CHR ''-'' # y @ CHR '']'' # rest) = Some (x @ ''-'' @ y, rest)"
  using assms
  by (simp add: match_token_def all_digits_def takeWhile_stop dropWhile_stop takeWhile_all dropWhile_all)

lemma match_token_extend_None:
  assumes "match_token (c # cs) = None"
  shows "match_token (c # cs @ CHR ''['' # t) = None"
proof (cases "c = CHR ''[''")
  case False
  then show ?thesis by (simp add: match_token_def)
next
  case open_bracket: True
  let ?u = "CHR ''['' # t"
  show ?thesis
  proof (cases "dropWhile is_digit cs")
    case Nil
    then show ?thesis
      by (simp add: match_token_def Let_def takeWhile_stop dropWhile_stop dropWhile_all)
  next
    case r1: (Cons d r2)
    show ?thesis
    proof (cases "dropWhile is_digit r2")
      case Nil
      with r1 show ?thesis
        by (simp add: match_token_def Let_def takeWhile_stop dropWhile_stop dropWhile_all)
    next
      case r3: (Cons e r4)
      from assms open_bracket r1 r3
      have "takeWhile is_digit cs = [] \<or> d \<noteq> CHR ''-'' \<or> takeWhile is_digit r2 = [] \<or> e \<noteq> CHR '']''"
        by (auto simp add: match_token_def split: if_splits)
      with r1 r3 show ?thesis
        by (auto simp add: match_token_def Let_def takeWhile_stop dropWhile_stop dropWhile_all)
    qed
  qed
qed

lemma re_split_shape: "re_split s = [s] \<or> (\<exists>l g r. re_split s = [l, g, r])"
proof (induction s)
  case Nil
  then show ?case by simp
next
  case (Cons c cs)
  then show ?case by (auto split: option.splits)
qed

lemma re_split_free_Cons:
  assumes "re_split (c # cs) = [c # cs]"
  shows "match_token (c # cs) = None \<and> re_split cs = [cs]"
  using assms re_split_shape [of cs]
  by (auto split: option.splits list.splits)

lemma re_split_lead:
  assumes "re_split lead = [lead]" "all_digits x" "all_digits y"
  shows "re_split (lead @ CHR ''['' # x @ CHR ''-'' # y @ CHR '']'' # rest) = [lead, x @ ''-'' @ y, rest]"
  using assms(1)
proof (induction lead)
  case Nil
  show ?case using match_token_here [OF assms(2,3)] by simp
next
  case (Cons c cs)
  from re_split_free_Cons [OF Cons.prems]
  have n: "match_token (c # cs) = None" and f: "re_split cs = [cs]" by simp_all
  from match_token_extend_None [OF n]
  have "match_token (c # cs @ CHR ''['' # x @ CHR ''-'' # y @ CHR '']'' # rest) = None" .
  with Cons.IH [OF f] show ?case by simp
qed

lemma str_split_dash_digits:
  "\<forall>c \<in> set y. is_digit c \<Longrightarrow> str_split_dash y = [y]"
  by (induction y) auto

lemma str_split_dash_pair:
  assumes "all_digits x" "all_digits y"
  shows "str_split_dash (x @ ''-'' @ y) = [x, y]"
  using assms(1)
proof -
  have "\<forall>c \<in> set x. is_digit c \<Longrightarrow> str_split_dash (x @ CHR ''-'' # y) = [x, y]" for x
    using assms(2) by (induction x) (auto simp: all_digits_def str_split_dash_digits)
  with assms(1) show ?thesis by (simp add: all_digits_def)
qed

lemma is_digit_digit_char: "n < 10 \<Longrightarrow> is_digit (digit_char n)"
  by (simp add: is_digit_def digit_char_def)

lemma digit_val_digit_char: "n < 10 \<Longrightarrow> digit_val (digit_char n) = n"
  by (simp add: digit_val_def digit_char_def)

lemma all_digits_str_nat: "all_digits (str_nat n)"
proof (induction n rule: str_nat.induct)
  case (1 n)
  show ?case
  proof (cases "n < 10")
    case True
    then show ?thesis by (subst str_nat.simps) (simp add: all_digits_def is_digit_digit_char)
  next
    case False
    with 1 have "all_digits (str_nat (n div 10))" by simp
    moreover have "is_digit (digit_char (n mod 10))" by (simp add: is_digit_digit_char)
    ultimately show ?thesis using False
      by (subst str_nat.simps) (auto simp add: all_digits_def)
  qed
qed

lemma py_int_str_nat: "py_int (str_nat n) = int n"
proof (induction n rule: str_nat.induct)
  case (1 n)
  show ?case
  proof (cases "n < 10")
    case True
    then show ?thesis by (subst str_nat.simps) (simp add: py_int_def digit_val_digit_char)
  next
    case False
    with 1 have "py_int (str_nat (n div 10)) = int (n div 10)" by simp
    then show ?thesis using False
      by (subst str_nat.simps) (simp add: py_int_def digit_val_digit_char)
  qed
qed


subsection \<open>The expansion of a pattern with a range token\<close>

lemma for_loop_Inr: "for_loop is (\<lambda>i. Inr (f i)) = Inr (concat (map f is))"
  by (induction "is") auto

lemma for_loop_Inl: "for_loop is (\<lambda>i. Inl e) = (if is = [] then Inr [] else Inl e)"
  by (cases "is") auto

lemma range_token_shape:
  "lead @ range_token a b @ rest = lead @ CHR ''['' # str_nat a @ CHR ''-'' # str_nat b @ CHR '']'' # rest"
  by (simp add: range_token_def)

lemma re_split_range_token:
  assumes "token_free lead"
  shows "re_split (lead @ range_token a b @ rest) = [lead, str_nat a @ ''-'' @ str_nat b, rest]"
  using assms re_split_lead [of lead "str_nat a" "str_nat b" rest]
  by (simp add: token_free_def range_token_shape all_digits_str_nat)

lemma expand_pattern_token:
  assumes "token_free lead"
  shows "expand_pattern (lead @ range_token a b @ rest) =
           (if rest \<noteq> [] then
              for_loop [int a .. int b] (\<lambda>i. map_result (\<lambda>r. lead @ py_str i @ r) (expand_pattern rest))
            else for_loop [int a .. int b] (\<lambda>i. Inr [lead @ py_str i]))"
  by (subst expand_pattern.simps)
     (simp add: re_split_range_token [OF assms] str_split_dash_pair all_digits_str_nat py_int_str_nat
           del: append.simps)

lemma expand_pattern_token_free:
  assumes "token_free s"
  shows "expand_pattern s = Inl ValueError"
  using assms by (subst expand_pattern.simps) (simp add: token_free_def)

lemma expand_pattern_empty_range:
  assumes "token_free lead" "b < a"
  shows "expand_pattern (lead @ range_token a b @ rest) = Inr []"
  using assms by (simp add: expand_pattern_token)

lemma expand_pattern_trailing_literal:
  assumes "token_free lead" "token_free t" "t \<noteq> []" "a \<le> b"
  shows "expand_pattern (lead @ range_token a b @ t) = Inl ValueError"
proof -
  from assms(4) have "[int a .. int b] \<noteq> []" by simp
  then show ?thesis
    using assms(1-3)
    by (simp add: expand_pattern_token expand_pattern_token_free map_result_def for_loop_Inl)
qed

lemma render_Nil_iff: "render segs = [] \<longleftrightarrow> segs = []"
  by (cases segs) (auto simp: range_token_def)

lemma expand_pattern_render:
  assumes "segs \<noteq> []" "\<forall>(l, a, b) \<in> set segs. token_free l"
  shows "expand_pattern (render segs) = Inr (names_of segs)"
  using assms
proof (induction segs)
  case Nil
  then show ?case by simp
next
  case (Cons seg segs)
  obtain l a b where seg: "seg = (l, a, b)" by (cases seg) auto
  with Cons.prems have l: "token_free l" by simp
  show ?case
  proof (cases "segs = []")
    case True
    have "expand_pattern (l @ range_token a b @ []) = Inr (concat (map (\<lambda>i. [l @ py_str i]) [int a .. int b]))"
      using l by (simp only: expand_pattern_token for_loop_Inr) simp
    then show ?thesis using True seg by simp
  next
    case False
    with Cons have "expand_pattern (render segs) = Inr (names_of segs)" by simp
    then show ?thesis using l seg False
      by (simp add: expand_pattern_token render_Nil_iff map_result_def for_loop_Inr)
  qed
qed

lemma length_concat_const:
  "(\<forall>x \<in> set xs. length (f x) = n) \<Longrightarrow> length (concat (map f xs)) = length xs * n"
  by (induction xs) auto

lemma length_names_of: "length (names_of segs) = range_count segs"
proof (induction segs)
  case Nil
  then show ?case by simp
next
  case (Cons seg segs)
  obtain l a b where seg: "seg = (l, a, b)" by (cases seg) auto
  have len: "length [int a .. int b] = Suc b - a" by simp
  have "length (concat (map (\<lambda>i. map (\<lambda>r. l @ py_str i @ r) (names_of segs)) [int a .. int b]))
          = length [int a .. int b] * length (names_of segs)"
    by (rule length_concat_const) simp
  then show ?case using Cons seg len by simp
qed


subsection \<open>Claims about the expansion\<close>

text \<open>
  Claim C3. For every well-formed pattern (literal text interleaved with bracketed ranges
  with start at most end, including nested ranges and trailing literal text), the
  expansion has exactly the product of the range sizes many names, the leftmost range
  varying slowest.

  For a pattern that ends with a range token this is \<open>expand_pattern_render\<close> with
  \<open>length_names_of\<close> above. With literal text after the last range the generator calls
  itself on a remnant in which the expression matches nowhere, and the unpacking of the
  one-element list raises: \<open>xe-0/[0-1]/a\<close> gives \<open>ValueError\<close>, not the two names
  \<open>xe-0/0/a\<close> and \<open>xe-0/1/a\<close>.
\<close>

theorem expand_pattern_trailing_text_raises:
  "expand_pattern ''xe-0/[0-1]/a'' = Inl ValueError
   \<and> expand_pattern ''xe-0/[0-1]/a'' \<noteq> Inr [''xe-0/0/a'', ''xe-0/1/a'']"
  by code_simp

text \<open>
  Claim C4. For every pattern string without a range token the expansion is the single
  name that is the string itself.

  The function has no branch for a string in which the expression matches nowhere:
  \<open>re.split\<close> returns the one-element list and the unpacking into three names raises, so
  \<open>ge-0/0/0\<close> gives \<open>ValueError\<close>, not the one name \<open>ge-0/0/0\<close>.
\<close>

theorem expand_pattern_no_token_raises:
  "expand_pattern ''ge-0/0/0'' = Inl ValueError
   \<and> expand_pattern ''ge-0/0/0'' \<noteq> Inr [''ge-0/0/0'']"
  by code_simp

text \<open>
  Claim C5. The expansion fails with an error for every pattern whose range is malformed
  (start greater than end, non-integer bounds, unbalanced brackets) rather than returning a
  possibly empty sequence of names.

  As stated this fails: for \<open>ge-0/0/[3-1]\<close> the loop runs over the empty
  \<open>range(3, 2)\<close> and the generator ends without a name and without an error.
\<close>

theorem expand_pattern_reversed_range_no_error:
  "expand_pattern ''ge-0/0/[3-1]'' = Inr []"
  by code_simp

text \<open>
  Claim C5 as amended. The code does not validate ranges. When the leftmost range token
  \<open>[a-b]\<close> has \<open>b < a\<close> the expansion is the empty sequence, without an error, whatever
  follows the token. Text before the token in which the expression matches nowhere,
  brackets included, is literal text: a pattern made of such text and one final range
  token expands to that text followed by each number of the range.
\<close>

theorem expand_pattern_no_range_validation:
  assumes "token_free lead"
  shows "(b < a \<longrightarrow> expand_pattern (lead @ range_token a b @ rest) = Inr [])
         \<and> expand_pattern (lead @ range_token a b) = Inr (map (\<lambda>i. lead @ py_str i) [int a .. int b])"
proof -
  have "expand_pattern (lead @ range_token a b @ []) = Inr (concat (map (\<lambda>i. [lead @ py_str i]) [int a .. int b]))"
    using assms by (simp only: expand_pattern_token for_loop_Inr) simp
  then show ?thesis using assms by (simp add: expand_pattern_empty_range)
qed

theorem expand_pattern_no_range_validation_witness:
  "token_free ''[1-2'' \<and> (1::nat) < 3
   \<and> expand_pattern (''[1-2'' @ range_token 3 1 @ ''/x'') = Inr []
   \<and> token_free ''[a-b]''
   \<and> expand_pattern (''[a-b]'' @ range_token 1 2) = Inr [''[a-b]1'', ''[a-b]2'']"
proof -
  have h1: "token_free ''[1-2''" by code_simp
  have h2: "(1::nat) < 3" by simp
  have h3: "token_free ''[a-b]''" by code_simp
  from expand_pattern_no_range_validation [OF h1, of 1 3 "''/x''"] h2
  have c1: "expand_pattern (''[1-2'' @ range_token 3 1 @ ''/x'') = Inr []" by blast
  from expand_pattern_no_range_validation [OF h3, of 2 1 "[]"]
  have "expand_pattern (''[a-b]'' @ range_token 1 2) = Inr (map (\<lambda>i. ''[a-b]'' @ py_str i) [int 1 .. int 2])"
    by blast
  moreover have "map (\<lambda>i. ''[a-b]'' @ py_str i) [int 1 .. int 2] = [''[a-b]1'', ''[a-b]2'']"
    by code_simp
  ultimately have c2: "expand_pattern (''[a-b]'' @ range_token 1 2) = Inr [''[a-b]1'', ''[a-b]2'']"
    by simp
  show ?thesis by (intro conjI) (rule h1, rule h2, rule c1, rule h3, rule c2)
qed

section \<open>Bulk component provisioning (dcim/views.py)\<close>

text \<open>
  A component (console port, power port, interface, device bay, ...) as the bulk views
  build it: the owning device's primary key, the name, and in the extension part of the
  record the attributes copied from the form.
\<close>

record component =
  device :: nat
  name :: string

text \<open>
  An entry added with \<open>form.add_error(field, message)\<close>. The message names the device and the
  candidate name and carries the text of the validation error.
\<close>

datatype form_error = FormError (err_field: string) (err_device: nat) (err_name: string) (err_text: string)

text \<open>
  The model form (\<open>forms.ConsolePortForm\<close>, \<open>forms.InterfaceForm\<close>, ...) is declared in
  forms.py, which is not among the modelled sources, so it is a parameter: given the
  persisted components and a candidate it returns the candidate's validation errors as
  (field, message) pairs, in the order of \<open>errors.as_data().items()\<close>; \<open>is_valid()\<close> holds
  when there are none. A non-field error has the field \<open>__all__\<close>. The model form sees the
  persisted components only: the views hand it nothing else.
\<close>

type_synonym 'a model_form = "'a component_scheme list \<Rightarrow> 'a component_scheme \<Rightarrow> (string \<times> string) list"

text \<open>
  \<open>Model.objects.bulk_create(objs)\<close> inserts the objects in order. Constraints that the
  schema may declare are outside the modelled code.
\<close>

definition bulk_create :: "'c list \<Rightarrow> 'c list \<Rightarrow> 'c list" where
  "bulk_create db objs = db @ objs"

text \<open>
  The bound form of the bulk view: \<open>cleaned_data\<close> with the selected devices (\<open>pk\<close>), the
  expanded names (\<open>name_pattern\<close>) and the remaining fields, or the errors of a form that
  is not valid. The request also says whether \<open>_create\<close> was posted and which of the
  devices of \<open>pk_list\<close> exist (\<open>selected_devices\<close>).
\<close>

record 'a bulk_form =
  form_pk :: "nat list"
  name_pattern :: "string list"
  form_data :: 'a

datatype 'a form_result = Invalid "form_error list" | Cleaned "'a bulk_form"

record 'a post_request =
  post_create :: bool
  post_form :: "'a form_result"
  post_selected :: "nat list"

text \<open>
  What a view answers: a redirect with the success message (number of components, number
  of devices or the device), a redirect with the warning that no devices were selected,
  the page rendered with the form and its errors, or an exception that leaves the view.
\<close>

datatype response =
  Added nat nat | AddedTo nat nat | NoDevicesSelected | RenderForm "form_error list" | Raised py_error

text \<open>
  \<open>form.add_error(field, error)\<close>: the error is appended to the form's errors, and the
  call raises \<open>ValueError\<close> when the field is neither the key of the non-field errors
  (\<open>__all__\<close>) nor one of the fields of the form.
\<close>

definition field_accepted :: "string list \<Rightarrow> string \<Rightarrow> bool" where
  "field_accepted form_fields field = (field = ''__all__'' \<or> field \<in> set form_fields)"

definition add_error :: "string list \<Rightarrow> form_error list \<Rightarrow> form_error \<Rightarrow> py_error + form_error list" where
  "add_error form_fields errors e =
     (if field_accepted form_fields (err_field e) then Inr (errors @ [e]) else Inl ValueError)"

text \<open>A \<open>for\<close> loop over a state whose body may raise: the exception ends the loop.\<close>

fun fold_raise :: "('x \<Rightarrow> 's \<Rightarrow> py_error + 's) \<Rightarrow> 'x list \<Rightarrow> 's \<Rightarrow> py_error + 's" where
  "fold_raise body [] s = Inr s"
| "fold_raise body (x # xs) s =
     (case body x s of Inl e \<Rightarrow> Inl e | Inr s' \<Rightarrow> fold_raise body xs s')"

text \<open>
  The body of the inner loop of \<open>DeviceBulkAddComponentView.post\<close>: build the candidate,
  validate it, and either stage it in \<open>new_components\<close> or hand every validation error,
  under the field the model form reported it for, to \<open>add_error\<close> of the bulk form. The
  state is \<open>(new_components, form.errors)\<close>; \<open>form_fields\<close> are the fields of the bulk form.
\<close>

definition add_candidate ::
  "string list \<Rightarrow> 'a model_form \<Rightarrow> 'a component_scheme list \<Rightarrow> 'a \<Rightarrow> nat \<Rightarrow> string
     \<Rightarrow> 'a component_scheme list \<times> form_error list
     \<Rightarrow> py_error + 'a component_scheme list \<times> form_error list" where
  "add_candidate form_fields model_form db data dev nm acc =
     (let component_data = \<lparr>device = dev, name = nm, \<dots> = data\<rparr>;
          errors = model_form db component_data
      in if errors = [] then Inr (fst acc @ [component_data], snd acc)
         else fold_raise
                (\<lambda>(field, e) acc.
                    case add_error form_fields (snd acc) (FormError field dev nm e) of
                      Inl exn \<Rightarrow> Inl exn
                    | Inr errs \<Rightarrow> Inr (fst acc, errs))
                errors acc)"

text \<open>The two nested loops: devices outermost, names innermost.\<close>

definition validate_batch ::
  "string list \<Rightarrow> 'a model_form \<Rightarrow> 'a component_scheme list \<Rightarrow> nat list \<Rightarrow> string list \<Rightarrow> 'a
     \<Rightarrow> py_error + 'a component_scheme list \<times> form_error list" where
  "validate_batch form_fields model_form db devices names data =
     fold_raise
       (\<lambda>dev acc. fold_raise (\<lambda>nm acc. add_candidate form_fields model_form db data dev nm acc) names acc)
       devices ([], [])"

text \<open>The components staged by the loops, when they end without an exception.\<close>

definition staged :: "py_error + 'c list \<times> form_error list \<Rightarrow> 'c list" where
  "staged r = (case r of Inl exn \<Rightarrow> [] | Inr (new_components, errors) \<Rightarrow> new_components)"

text \<open>
  \<open>DeviceBulkAddComponentView.post\<close>: the store of persisted components after the request,
  and the response. An exception of the loops leaves the view before anything is written.
\<close>

definition DeviceBulkAddComponentView_post ::
  "string list \<Rightarrow> 'a model_form \<Rightarrow> 'a component_scheme list \<Rightarrow> 'a post_request
     \<Rightarrow> 'a component_scheme list \<times> response" where
  "DeviceBulkAddComponentView_post form_fields model_form db request =
     (let render = (\<lambda>errors. if post_selected request = [] then (db, NoDevicesSelected)
                              else (db, RenderForm errors))
      in if post_create request then
           (case post_form request of
              Cleaned data \<Rightarrow>
                (case validate_batch form_fields model_form db
                        (form_pk data) (name_pattern data) (form_data data) of
                   Inl exn \<Rightarrow> (db, Raised exn)
                 | Inr (new_components, errors) \<Rightarrow>
                     if errors = [] then
                       (bulk_create db new_components,
                        Added (length new_components) (length (form_pk data)))
                     else render errors)
            | Invalid errors \<Rightarrow> render errors)
         else render [])"

text \<open>
  The candidates of a batch in the order the loops build them, the form errors one
  candidate contributes, and whether the bulk form accepts the fields of a candidate's
  validation errors.
\<close>

definition candidates :: "nat list \<Rightarrow> string list \<Rightarrow> 'a \<Rightarrow> 'a component_scheme list" where
  "candidates devices names data =
     concat (map (\<lambda>dev. map (\<lambda>nm. \<lparr>device = dev, name = nm, \<dots> = data\<rparr>) names) devices)"

definition candidate_errors :: "'a model_form \<Rightarrow> 'a component_scheme list \<Rightarrow> 'a component_scheme \<Rightarrow> form_error list" where
  "candidate_errors model_form db c =
     map (\<lambda>(field, e). FormError field (device c) (name c) e) (model_form db c)"

definition fields_accepted :: "string list \<Rightarrow> (string \<times> string) list \<Rightarrow> bool" where
  "fields_accepted form_fields errors = list_all (\<lambda>(field, e). field_accepted form_fields field) errors"

text \<open>
  Modelled from the spec: the model forms of forms.py are missing. The spec's per-device
  constraint is "name uniqueness within the device's existing components": a candidate
  is invalid when a persisted component of the same device has the same name. The error
  belongs to no single field.
\<close>

definition name_unique :: "'a model_form" where
  "name_unique db c =
     (if list_ex (\<lambda>e. device e = device c \<and> name e = name c) db
      then [(''__all__'', ''already exists'')] else [])"

text \<open>
  Modelled from the spec: the model forms of forms.py are missing. Besides name uniqueness
  the spec has a model form check "attribute-specific rules"; the error of such a rule
  belongs to the attribute's field. Here a name of more than \<open>limit\<close> characters is an error
  of the field \<open>name\<close>.
\<close>

definition name_max_length :: "nat \<Rightarrow> 'a model_form" where
  "name_max_length limit db c =
     (if limit < length (name c) then [(''name'', ''too long'')] else [])"

text \<open>
  \<open>consoleport_add\<close>: the same scheme for one device; every invalid name adds one error to
  the field \<open>name_pattern\<close>, which is a field of the form.
\<close>

datatype create_form = CreateInvalid "form_error list" | CreateCleaned "string list"

record add_request =
  method_post :: bool
  create_form :: create_form

definition add_console_port ::
  "unit model_form \<Rightarrow> component list \<Rightarrow> nat \<Rightarrow> string
     \<Rightarrow> component list \<times> form_error list \<Rightarrow> component list \<times> form_error list" where
  "add_console_port cp_form db dev nm acc =
     (let cp = \<lparr>device = dev, name = nm\<rparr>
      in if cp_form db cp = [] then (fst acc @ [cp], snd acc)
         else (fst acc,
               snd acc @ [FormError ''name_pattern'' dev nm ''Duplicate console port name for this device'']))"

definition consoleport_add ::
  "unit model_form \<Rightarrow> component list \<Rightarrow> nat \<Rightarrow> add_request \<Rightarrow> component list \<times> response" where
  "consoleport_add cp_form db dev request =
     (if method_post request then
        (case create_form request of
           CreateCleaned names \<Rightarrow>
             (case fold (add_console_port cp_form db dev) names ([], []) of
                (console_ports, errors) \<Rightarrow>
                  if errors = [] then
                    (bulk_create db console_ports, AddedTo (length console_ports) dev)
                  else (db, RenderForm errors))
         | CreateInvalid errors \<Rightarrow> (db, RenderForm errors))
      else (db, RenderForm []))"

text \<open>
  \<open>devicebay_add\<close>: a name whose \<open>DeviceBayForm\<close> is not valid adds to the field
  \<open>name_pattern\<close> the errors found under \<open>__all__\<close> (\<open>devicebay_form.errors.get('__all__', [])\<close>)
  and nothing for the errors of a field.
\<close>

definition add_device_bay ::
  "unit model_form \<Rightarrow> component list \<Rightarrow> nat \<Rightarrow> string
     \<Rightarrow> component list \<times> form_error list \<Rightarrow> component list \<times> form_error list" where
  "add_device_bay devicebay_form db dev nm acc =
     (let device_bay = \<lparr>device = dev, name = nm\<rparr>;
          errors = devicebay_form db device_bay
      in if errors = [] then (fst acc @ [device_bay], snd acc)
         else (fst acc,
               snd acc @ map (\<lambda>(field, err). FormError ''name_pattern'' dev nm err)
                           (filter (\<lambda>(field, err). field = ''__all__'') errors)))"

definition devicebay_add ::
  "unit model_form \<Rightarrow> component list \<Rightarrow> nat \<Rightarrow> add_request \<Rightarrow> component list \<times> response" where
  "devicebay_add devicebay_form db dev request =
     (if method_post request then
        (case create_form request of
           CreateCleaned names \<Rightarrow>
             (case fold (add_device_bay devicebay_form db dev) names ([], []) of
                (device_bays, errors) \<Rightarrow>
                  if errors = [] then
                    (bulk_create db device_bays, AddedTo (length device_bays) dev)
                  else (db, RenderForm errors))
         | CreateInvalid errors \<Rightarrow> (db, RenderForm errors))
      else (db, RenderForm []))"

subsection \<open>The loops as filters over the batch\<close>

lemma add_error_accepted:
  "field_accepted fs (err_field e) \<Longrightarrow> add_error fs errs e = Inr (errs @ [e])"
  by (simp add: add_error_def)

lemma add_error_refused:
  "\<not> field_accepted fs (err_field e) \<Longrightarrow> add_error fs errs e = Inl ValueError"
  by (simp add: add_error_def)

lemma add_errors_fold:
  "fold_raise
     (\<lambda>(field, e) acc.
         case add_error fs (snd acc) (FormError field dev nm e) of
           Inl exn \<Rightarrow> Inl exn
         | Inr errs \<Rightarrow> Inr (fst acc, errs))
     es acc
   = (if fields_accepted fs es
      then Inr (fst acc, snd acc @ map (\<lambda>(field, e). FormError field dev nm e) es)
      else Inl ValueError)"
proof (induction es arbitrary: acc)
  case Nil
  then show ?case by (simp add: fields_accepted_def)
next
  case (Cons p es)
  obtain field e where p: "p = (field, e)" by (cases p) auto
  show ?case
  proof (cases "field_accepted fs field")
    case True
    then show ?thesis
      by (simp add: p Cons.IH add_error_accepted fields_accepted_def)
  next
    case False
    then show ?thesis
      by (simp add: p add_error_refused fields_accepted_def)
  qed
qed

lemma add_candidate_eq:
  "add_candidate fs V db data dev nm acc =
     (if fields_accepted fs (V db \<lparr>device = dev, name = nm, \<dots> = data\<rparr>)
      then Inr (fst acc @ filter (\<lambda>c. V db c = []) [\<lparr>device = dev, name = nm, \<dots> = data\<rparr>],
                snd acc @ candidate_errors V db \<lparr>device = dev, name = nm, \<dots> = data\<rparr>)
      else Inl ValueError)"
  by (simp add: add_candidate_def Let_def add_errors_fold candidate_errors_def fields_accepted_def)

lemma add_candidate_accepted:
  "fields_accepted fs (V db \<lparr>device = dev, name = nm, \<dots> = data\<rparr>) \<Longrightarrow>
   add_candidate fs V db data dev nm acc =
     Inr (fst acc @ filter (\<lambda>c. V db c = []) [\<lparr>device = dev, name = nm, \<dots> = data\<rparr>],
          snd acc @ candidate_errors V db \<lparr>device = dev, name = nm, \<dots> = data\<rparr>)"
  by (simp add: add_candidate_eq)

lemma add_candidate_refused:
  "\<not> fields_accepted fs (V db \<lparr>device = dev, name = nm, \<dots> = data\<rparr>) \<Longrightarrow>
   add_candidate fs V db data dev nm acc = Inl ValueError"
  by (simp add: add_candidate_eq)

lemma inner_fold:
  "fold_raise (\<lambda>nm acc. add_candidate fs V db data dev nm acc) names acc =
     (if \<forall>c \<in> set (map (\<lambda>nm. \<lparr>device = dev, name = nm, \<dots> = data\<rparr>) names). fields_accepted fs (V db c)
      then Inr (fst acc @ filter (\<lambda>c. V db c = []) (map (\<lambda>nm. \<lparr>device = dev, name = nm, \<dots> = data\<rparr>) names),
                snd acc @ concat (map (candidate_errors V db)
                                    (map (\<lambda>nm. \<lparr>device = dev, name = nm, \<dots> = data\<rparr>) names)))
      else Inl ValueError)"
proof (induction names arbitrary: acc)
  case Nil
  then show ?case by simp
next
  case (Cons nm names)
  show ?case
  proof (cases "fields_accepted fs (V db \<lparr>device = dev, name = nm, \<dots> = data\<rparr>)")
    case True
    then show ?thesis
      by (simp add: add_candidate_accepted Cons.IH)
  next
    case False
    then show ?thesis
      by (simp add: add_candidate_refused)
  qed
qed

lemma outer_fold:
  "fold_raise (\<lambda>dev acc. fold_raise (\<lambda>nm acc. add_candidate fs V db data dev nm acc) names acc) devices acc =
     (if \<forall>c \<in> set (candidates devices names data). fields_accepted fs (V db c)
      then Inr (fst acc @ filter (\<lambda>c. V db c = []) (candidates devices names data),
                snd acc @ concat (map (candidate_errors V db) (candidates devices names data)))
      else Inl ValueError)"
proof (induction devices arbitrary: acc)
  case Nil
  then show ?case by (simp add: candidates_def)
next
  case (Cons dev devices)
  let ?row = "map (\<lambda>nm. \<lparr>device = dev, name = nm, \<dots> = data\<rparr>) names"
  let ?body = "\<lambda>dev acc. fold_raise (\<lambda>nm acc. add_candidate fs V db data dev nm acc) names acc"
  have c: "candidates (dev # devices) names data = ?row @ candidates devices names data"
    by (simp add: candidates_def)
  have step: "fold_raise ?body (dev # devices) acc
                = (case ?body dev acc of Inl e \<Rightarrow> Inl e | Inr s' \<Rightarrow> fold_raise ?body devices s')"
    by simp
  show ?case
  proof (cases "\<forall>c \<in> set ?row. fields_accepted fs (V db c)")
    case True
    then have "?body dev acc
                 = Inr (fst acc @ filter (\<lambda>c. V db c = []) ?row,
                        snd acc @ concat (map (candidate_errors V db) ?row))"
      using True by (simp add: inner_fold)
    then show ?thesis
      using True by (simp only: step Cons.IH) (auto simp add: c)
  next
    case False
    then have "?body dev acc = Inl ValueError"
      by (simp add: inner_fold)
    then show ?thesis
      using False by (simp only: step) (auto simp add: c)
  qed
qed

lemma validate_batch_eq:
  "validate_batch fs V db devices names data =
     (if \<forall>c \<in> set (candidates devices names data). fields_accepted fs (V db c)
      then Inr (filter (\<lambda>c. V db c = []) (candidates devices names data),
                concat (map (candidate_errors V db) (candidates devices names data)))
      else Inl ValueError)"
  by (simp add: validate_batch_def outer_fold)

lemma candidate_errors_Nil [simp]: "candidate_errors V db c = [] \<longleftrightarrow> V db c = []"
  by (simp add: candidate_errors_def)

lemma batch_errors_Nil:
  "concat (map (candidate_errors V db) cs) = [] \<longleftrightarrow> (\<forall>c \<in> set cs. V db c = [])"
  by (induction cs) auto

lemma fields_accepted_Nil [simp]: "fields_accepted fs []"
  by (simp add: fields_accepted_def)

lemma refused_nonempty: "\<not> fields_accepted fs es \<Longrightarrow> es \<noteq> []"
  by auto

lemma refused_is_invalid:
  assumes "\<not> (\<forall>c \<in> set cs. fields_accepted fs (V db c))"
  shows "\<exists>c \<in> set cs. V db c \<noteq> []"
proof -
  from assms obtain c where c: "c \<in> set cs" "\<not> fields_accepted fs (V db c)" by blast
  from c(2) have "V db c \<noteq> []" by (rule refused_nonempty)
  with c(1) show ?thesis by blast
qed

lemma post_cleaned:
  assumes "post_create request" "post_form request = Cleaned data"
    and "cs = candidates (form_pk data) (name_pattern data) (form_data data)"
  shows "DeviceBulkAddComponentView_post fs V db request =
           (if \<forall>c \<in> set cs. V db c = []
            then (bulk_create db cs, Added (length cs) (length (form_pk data)))
            else if \<not> (\<forall>c \<in> set cs. fields_accepted fs (V db c)) then (db, Raised ValueError)
            else if post_selected request = [] then (db, NoDevicesSelected)
            else (db, RenderForm (concat (map (candidate_errors V db) cs))))"
proof (cases "\<forall>c \<in> set cs. V db c = []")
  case True
  then have "filter (\<lambda>c. V db c = []) cs = cs" and "\<forall>c \<in> set cs. fields_accepted fs (V db c)"
    by simp_all
  with True assms(1,2) show ?thesis
    by (simp add: DeviceBulkAddComponentView_post_def validate_batch_eq batch_errors_Nil
          assms(3) [symmetric])
next
  case False
  then have "concat (map (candidate_errors V db) cs) \<noteq> []"
    by (simp add: batch_errors_Nil)
  with False assms(1,2) show ?thesis
    by (auto simp add: DeviceBulkAddComponentView_post_def validate_batch_eq assms(3) [symmetric])
qed

text \<open>
  The bulk view writes nothing when a candidate fails, and it writes a batch without
  failures as a whole. The errors of the whole batch are on the rendered page when the
  bulk form accepts the fields of all of them and some selected device exists; otherwise
  the view ends with the exception of \<open>add_error\<close> or with the redirect.
\<close>

lemma bulk_post_all_or_nothing:
  assumes "post_create request" "post_form request = Cleaned data"
    and "cs = candidates (form_pk data) (name_pattern data) (form_data data)"
  shows "((\<exists>c \<in> set cs. V db c \<noteq> []) \<longrightarrow> fst (DeviceBulkAddComponentView_post fs V db request) = db)
         \<and> ((\<exists>c \<in> set cs. V db c \<noteq> []) \<and> (\<forall>c \<in> set cs. fields_accepted fs (V db c))
                \<and> post_selected request \<noteq> [] \<longrightarrow>
              snd (DeviceBulkAddComponentView_post fs V db request)
                = RenderForm (concat (map (candidate_errors V db) cs)))
         \<and> (\<not> (\<forall>c \<in> set cs. fields_accepted fs (V db c)) \<longrightarrow>
              DeviceBulkAddComponentView_post fs V db request = (db, Raised ValueError))
         \<and> ((\<forall>c \<in> set cs. V db c = []) \<longrightarrow>
              DeviceBulkAddComponentView_post fs V db request
                = (bulk_create db cs, Added (length cs) (length (form_pk data))))"
proof -
  have "\<exists>c \<in> set cs. V db c \<noteq> []" if "\<not> (\<forall>c \<in> set cs. fields_accepted fs (V db c))"
    using that by (rule refused_is_invalid)
  then show ?thesis
    by (auto simp add: post_cleaned [OF assms])
qed

lemma add_console_port_fold:
  "fold (add_console_port V db dev) names acc =
     (fst acc @ filter (\<lambda>c. V db c = []) (map (\<lambda>nm. \<lparr>device = dev, name = nm\<rparr>) names),
      snd acc @ map (\<lambda>nm. FormError ''name_pattern'' dev nm ''Duplicate console port name for this device'')
                  (filter (\<lambda>nm. V db \<lparr>device = dev, name = nm\<rparr> \<noteq> []) names))"
proof (induction names arbitrary: acc)
  case Nil
  then show ?case by simp
next
  case (Cons nm names)
  show ?case
    by (simp add: Cons.IH) (simp add: add_console_port_def Let_def)
qed

lemma consoleport_add_all_or_nothing:
  assumes "method_post request" "create_form request = CreateCleaned names"
  shows "consoleport_add V db dev request =
          (if \<forall>nm \<in> set names. V db \<lparr>device = dev, name = nm\<rparr> = []
           then (bulk_create db (map (\<lambda>nm. \<lparr>device = dev, name = nm\<rparr>) names), AddedTo (length names) dev)
           else (db, RenderForm
                  (map (\<lambda>nm. FormError ''name_pattern'' dev nm ''Duplicate console port name for this device'')
                     (filter (\<lambda>nm. V db \<lparr>device = dev, name = nm\<rparr> \<noteq> []) names))))"
proof (cases "\<forall>nm \<in> set names. V db \<lparr>device = dev, name = nm\<rparr> = []")
  case True
  then have "filter (\<lambda>c. V db c = []) (map (\<lambda>nm. \<lparr>device = dev, name = nm\<rparr>) names)
               = map (\<lambda>nm. \<lparr>device = dev, name = nm\<rparr>) names"
    and "filter (\<lambda>nm. V db \<lparr>device = dev, name = nm\<rparr> \<noteq> []) names = []"
    by (simp_all add: filter_map comp_def)
  with True assms show ?thesis
    by (simp add: consoleport_add_def add_console_port_fold)
next
  case False
  then have "filter (\<lambda>nm. V db \<lparr>device = dev, name = nm\<rparr> \<noteq> []) names \<noteq> []"
    by (auto simp add: filter_empty_conv)
  with False assms show ?thesis
    by (simp add: consoleport_add_def add_console_port_fold)
qed

lemma add_device_bay_fold:
  "fold (add_device_bay V db dev) names acc =
     (fst acc @ filter (\<lambda>c. V db c = []) (map (\<lambda>nm. \<lparr>device = dev, name = nm\<rparr>) names),
      snd acc @ concat (map (\<lambda>nm. map (\<lambda>(field, err). FormError ''name_pattern'' dev nm err)
                                    (filter (\<lambda>(field, err). field = ''__all__'')
                                       (V db \<lparr>device = dev, name = nm\<rparr>))) names))"
proof (induction names arbitrary: acc)
  case Nil
  then show ?case by simp
next
  case (Cons nm names)
  show ?case
    by (simp add: Cons.IH) (simp add: add_device_bay_def Let_def)
qed

text \<open>
  When no candidate of the batch has a non-field error, \<open>devicebay_add\<close> writes the
  candidates that are valid and answers with the success message, whether or not other
  candidates were rejected.
\<close>

lemma devicebay_add_field_errors_only:
  assumes "method_post request" "create_form request = CreateCleaned names"
    and "\<forall>nm \<in> set names. \<forall>(field, err) \<in> set (V db \<lparr>device = dev, name = nm\<rparr>). field \<noteq> ''__all__''"
  shows "devicebay_add V db dev request =
           (bulk_create db (filter (\<lambda>c. V db c = []) (map (\<lambda>nm. \<lparr>device = dev, name = nm\<rparr>) names)),
            AddedTo (length (filter (\<lambda>c. V db c = []) (map (\<lambda>nm. \<lparr>device = dev, name = nm\<rparr>) names))) dev)"
proof -
  have "filter (\<lambda>(field, err). field = ''__all__'') (V db \<lparr>device = dev, name = nm\<rparr>) = []"
    if "nm \<in> set names" for nm
    using assms(3) that by (auto simp add: filter_empty_conv)
  then have "concat (map (\<lambda>nm. map (\<lambda>(field, err). FormError ''name_pattern'' dev nm err)
                                    (filter (\<lambda>(field, err). field = ''__all__'')
                                       (V db \<lparr>device = dev, name = nm\<rparr>))) names) = []"
    by simp
  with assms(1,2) show ?thesis
    by (simp add: devicebay_add_def add_device_bay_fold)
qed

lemma count_list_filter:
  "count_list (filter P xs) c = (if P c then count_list xs c else 0)"
  by (induction xs) auto

lemma expand_pattern_duplicate_names:
  "length (filter (\<lambda>nm. nm = ''111'') (projr (expand_pattern ''[1-11][1-11]''))) = 2"
  by code_simp

subsection \<open>Claims about provisioning\<close>

text \<open>
  Claim C1. Bulk component provisioning is all-or-nothing: for every batch, if any
  candidate fails validation then no component is persisted and the reported error lists
  every invalid candidate; only a batch without failures is written.

  \<open>DeviceBulkAddComponentView.post\<close> and \<open>consoleport_add\<close> write nothing when a candidate
  fails (\<open>bulk_post_all_or_nothing\<close>, \<open>consoleport_add_all_or_nothing\<close>). \<open>devicebay_add\<close> does
  not: it forwards only the non-field errors of a rejected candidate. For device 1 and
  the names \<open>bay1\<close> and a name of 51 characters, with a model form that rejects the long
  name by an error of the field \<open>name\<close>, the form stays without errors, the bay \<open>bay1\<close> is
  written and the view answers that it added one device bay.
\<close>

theorem devicebay_add_writes_partial_batch:
  "name_max_length 50 [] \<lparr>device = 1, name = replicate 51 CHR ''x''\<rparr> \<noteq> []
   \<and> devicebay_add (name_max_length 50) [] 1
       \<lparr>method_post = True, create_form = CreateCleaned [''bay1'', replicate 51 CHR ''x'']\<rparr>
     = ([\<lparr>device = 1, name = ''bay1''\<rparr>], AddedTo 1 1)"
  by (simp add: devicebay_add_def add_device_bay_def name_max_length_def bulk_create_def)

text \<open>
  Claim C2. Batch validation reads a snapshot that includes the writes already staged in
  the same batch: of two candidates that claim the same name on the same device, both are
  rejected, and the batch creates nothing.

  As stated this fails. Every candidate is validated against the persisted components
  only; the candidates staged in \<open>new_components\<close> are not saved (\<open>commit=False\<close>) and the
  model form never sees them. With an empty store and the name \<open>111\<close> twice for device 1,
  the loops leave the form without errors and both candidates reach \<open>bulk_create\<close>. Such
  names do come out of one pattern: \<open>[1-11][1-11]\<close> yields \<open>111\<close> for 1, 11 and for 11, 1.
\<close>

theorem duplicate_names_in_batch_pass_validation:
  "validate_batch [''pk'', ''name_pattern''] name_unique [] [1] [''111'', ''111''] ()
     = Inr ([\<lparr>device = 1, name = ''111''\<rparr>, \<lparr>device = 1, name = ''111''\<rparr>], [])
   \<and> DeviceBulkAddComponentView_post [''pk'', ''name_pattern''] name_unique []
        \<lparr>post_create = True,
         post_form = Cleaned \<lparr>form_pk = [1], name_pattern = [''111'', ''111''], form_data = ()\<rparr>,
         post_selected = [1]\<rparr>
     = ([\<lparr>device = 1, name = ''111''\<rparr>, \<lparr>device = 1, name = ''111''\<rparr>], Added 2 1)"
  by (simp add: DeviceBulkAddComponentView_post_def validate_batch_def add_candidate_def
        name_unique_def bulk_create_def)

text \<open>
  Claim C2 as amended. Batch validation checks every candidate against the persisted
  components only. A candidate of the batch is rejected exactly when the model form
  rejects it against the persisted store, so all candidates that claim the same name on
  the same device get the same verdict: when the store rejects the name, none of them is
  staged and the batch creates nothing; otherwise, when the loops end without the
  exception of \<open>add_error\<close>, every one of them is staged, as many times as it occurs. It is
  never just the second one that is rejected. The loops end without the exception
  exactly when the bulk form accepts the fields of all validation errors of the batch,
  and with the exception nothing is written.
\<close>

theorem batch_validation_reads_persisted_only:
  assumes "post_create request" "post_form request = Cleaned data"
    and "cs = candidates (form_pk data) (name_pattern data) (form_data data)"
    and "c \<in> set cs"
    and "r = validate_batch fs V db (form_pk data) (name_pattern data) (form_data data)"
  shows "(V db c \<noteq> [] \<longrightarrow>
            c \<notin> set (staged r) \<and> fst (DeviceBulkAddComponentView_post fs V db request) = db)
         \<and> (V db c = [] \<and> r \<noteq> Inl ValueError \<longrightarrow> count_list (staged r) c = count_list cs c)
         \<and> (r \<noteq> Inl ValueError \<longleftrightarrow> (\<forall>c' \<in> set cs. fields_accepted fs (V db c')))
         \<and> (r = Inl ValueError \<longrightarrow>
              DeviceBulkAddComponentView_post fs V db request = (db, Raised ValueError))"
proof -
  have r: "r = (if \<forall>c \<in> set cs. fields_accepted fs (V db c)
                then Inr (filter (\<lambda>c. V db c = []) cs, concat (map (candidate_errors V db) cs))
                else Inl ValueError)"
    by (simp add: assms(5) assms(3) validate_batch_eq)
  have nonvalid: "\<exists>c \<in> set cs. V db c \<noteq> []" if "\<not> (\<forall>c \<in> set cs. fields_accepted fs (V db c))"
    using that by (rule refused_is_invalid)
  have 1: "c \<notin> set (staged r)" if "V db c \<noteq> []"
    using that by (simp add: r staged_def)
  have 2: "fst (DeviceBulkAddComponentView_post fs V db request) = db" if "V db c \<noteq> []"
    using that assms(4) by (auto simp add: post_cleaned [OF assms(1-3)])
  have 3: "count_list (staged r) c = count_list cs c" if "V db c = []" "r \<noteq> Inl ValueError"
    using that by (simp add: r staged_def count_list_filter split: if_splits)
  have 4: "r \<noteq> Inl ValueError \<longleftrightarrow> (\<forall>c' \<in> set cs. fields_accepted fs (V db c'))"
    by (simp add: r)
  have 5: "DeviceBulkAddComponentView_post fs V db request = (db, Raised ValueError)"
    if "r = Inl ValueError"
  proof -
    from that 4 have n: "\<not> (\<forall>c \<in> set cs. fields_accepted fs (V db c))" by simp
    with nonvalid have "\<not> (\<forall>c \<in> set cs. V db c = [])" by blast
    with n show ?thesis by (simp add: post_cleaned [OF assms(1-3)])
  qed
  from 1 2 3 4 5 show ?thesis by blast
qed

theorem batch_validation_reads_persisted_only_witness:
  "\<lparr>device = 1, name = ''111''\<rparr>
     \<notin> set (staged (validate_batch [''pk'', ''name_pattern''] name_unique
                       [\<lparr>device = 1, name = ''111''\<rparr>] [1] [''111'', ''111''] ()))
   \<and> fst (DeviceBulkAddComponentView_post [''pk'', ''name_pattern''] name_unique [\<lparr>device = 1, name = ''111''\<rparr>]
          \<lparr>post_create = True,
           post_form = Cleaned \<lparr>form_pk = [1], name_pattern = [''111'', ''111''], form_data = ()\<rparr>,
           post_selected = [1]\<rparr>) = [\<lparr>device = 1, name = ''111''\<rparr>]
   \<and> count_list (staged (validate_batch [''pk'', ''name_pattern''] name_unique [] [1] [''111'', ''111''] ()))
        \<lparr>device = 1, name = ''111''\<rparr> = 2
   \<and> DeviceBulkAddComponentView_post [''pk'', ''name_pattern''] (name_max_length 2) []
          \<lparr>post_create = True,
           post_form = Cleaned \<lparr>form_pk = [1], name_pattern = [''111'', ''111''], form_data = ()\<rparr>,
           post_selected = [1]\<rparr> = ([], Raised ValueError)"
proof -
  let ?fs = "[''pk'', ''name_pattern'']"
  let ?data = "\<lparr>form_pk = [1], name_pattern = [''111'', ''111''], form_data = ()\<rparr>"
  let ?request = "\<lparr>post_create = True, post_form = Cleaned ?data, post_selected = [1]\<rparr>"
  let ?c = "\<lparr>device = 1, name = ''111''\<rparr>"
  let ?cs = "[?c, ?c]"
  have h1: "post_create ?request" by simp
  have h2: "post_form ?request = Cleaned ?data" by simp
  have h3: "?cs = candidates (form_pk ?data) (name_pattern ?data) (form_data ?data)"
    by (simp add: candidates_def)
  have h4: "?c \<in> set ?cs" by simp
  have h5: "name_unique [?c] ?c \<noteq> []" by (simp add: name_unique_def)
  have h6: "name_unique [] ?c = []" by (simp add: name_unique_def)
  have h7: "\<forall>c' \<in> set ?cs. fields_accepted ?fs (name_unique [] c')"
    by (simp add: name_unique_def)
  have h8: "\<not> (\<forall>c' \<in> set ?cs. fields_accepted ?fs (name_max_length 2 [] c'))"
    by (simp add: name_max_length_def fields_accepted_def field_accepted_def)
  from batch_validation_reads_persisted_only [where fs = ?fs and V = name_unique and db = "[?c]", OF h1 h2 h3 h4 refl] h5
  have c1: "?c \<notin> set (staged (validate_batch ?fs name_unique [?c] (form_pk ?data) (name_pattern ?data) (form_data ?data)))"
    and c2: "fst (DeviceBulkAddComponentView_post ?fs name_unique [?c] ?request) = [?c]"
    by blast+
  from batch_validation_reads_persisted_only [where fs = ?fs and V = name_unique and db = "[]", OF h1 h2 h3 h4 refl] h6 h7
  have c3: "count_list (staged (validate_batch ?fs name_unique [] (form_pk ?data) (name_pattern ?data) (form_data ?data))) ?c
              = count_list ?cs ?c"
    by blast
  from batch_validation_reads_persisted_only [where fs = ?fs and V = "name_max_length 2" and db = "[]", OF h1 h2 h3 h4 refl] h8
  have c4: "DeviceBulkAddComponentView_post ?fs (name_max_length 2) [] ?request = ([], Raised ValueError)"
    by blast
  from c1 c2 c3 c4 show ?thesis by simp
qed

section \<open>Console connections (dcim/views.py)\<close>

text \<open>
  A table of the record store: rows keyed by primary key. \<open>get_object\<close> is the lookup of
  \<open>get_object_or_404\<close> (no row: the 404 answer), \<open>save\<close> is \<open>obj.save()\<close> for an object
  with a primary key: the row with that key is replaced.
\<close>

type_synonym 'r table = "(nat \<times> 'r) list"

definition get_object :: "'r table \<Rightarrow> nat \<Rightarrow> 'r option" where
  "get_object tbl pk = map_of tbl pk"

definition save :: "'r table \<Rightarrow> nat \<Rightarrow> 'r \<Rightarrow> 'r table" where
  "save tbl pk row = AList.update pk row tbl"

text \<open>
  A console port holds the link of a console connection: the primary key of the console
  server port it is connected to (\<open>cs_port\<close>) and the status of the connection, both empty
  when the port is not connected. A console server port is a plain component; its peer is
  found through the reverse accessor \<open>connected_console\<close>, the console port whose
  \<open>cs_port\<close> is this port.
\<close>

datatype connection_status = Planned | Connected

record console_port = component +
  cs_port :: "nat option"
  connection_status :: "connection_status option"

definition connected_console :: "console_port table \<Rightarrow> nat \<Rightarrow> nat option" where
  "connected_console console_ports csp =
     map_option fst (find (\<lambda>(pk, cp). cs_port cp = Some csp) console_ports)"

definition console_port_peer :: "console_port table \<Rightarrow> nat \<Rightarrow> nat option" where
  "console_port_peer console_ports pk =
     (case get_object console_ports pk of None \<Rightarrow> None | Some cp \<Rightarrow> cs_port cp)"

text \<open>
  What a connection view answers: the redirect with the success message, a refusal (the
  404 page, the warning that the port is not connected, or the form's error that a port is
  already connected), or the page with the form and nothing done.
\<close>

datatype conn_error = Http404 | AlreadyConnectedError | NotConnectedError

datatype conn_response = Done | Refused conn_error | RenderPage

text \<open>
  Modelled from the spec: the connection forms \<open>ConsolePortConnectionForm\<close> and
  \<open>ConsoleServerPortConnectionForm\<close> (forms.py) are missing. The spec's contract for
  connect is that it "fails with AlreadyConnectedError if either port already has a peer";
  a form for a console port and a console server port is valid when neither has one.
\<close>

definition connection_form_valid :: "console_port table \<Rightarrow> nat \<Rightarrow> nat \<Rightarrow> bool" where
  "connection_form_valid console_ports cp csp =
     (console_port_peer console_ports cp = None \<and> connected_console console_ports csp = None)"

text \<open>
  The posted connection form: whether the request is a POST, the port chosen as the peer
  and the requested status.
\<close>

record connect_request =
  connect_post :: bool
  connect_peer :: nat
  connect_status :: connection_status

text \<open>
  \<open>consoleserverport_connect\<close>: for a valid form the chosen console port gets this console
  server port as \<open>cs_port\<close> and the requested status, and is saved. A form whose port does
  not exist is not valid.
\<close>

definition consoleserverport_connect ::
  "component table \<Rightarrow> console_port table \<Rightarrow> nat \<Rightarrow> connect_request \<Rightarrow> console_port table \<times> conn_response" where
  "consoleserverport_connect cs_ports console_ports pk request =
     (case get_object cs_ports pk of
        None \<Rightarrow> (console_ports, Refused Http404)
      | Some consoleserverport \<Rightarrow>
          if connect_post request then
            (case get_object console_ports (connect_peer request) of
               None \<Rightarrow> (console_ports, RenderPage)
             | Some consoleport \<Rightarrow>
                 if connection_form_valid console_ports (connect_peer request) pk then
                   (save console_ports (connect_peer request)
                      (consoleport\<lparr>cs_port := Some pk,
                                   connection_status := Some (connect_status request)\<rparr>),
                    Done)
                 else (console_ports, Refused AlreadyConnectedError))
          else (console_ports, RenderPage))"

text \<open>
  \<open>consoleport_connect\<close>: the model form is bound to the console port itself, and
  \<open>form.save()\<close> writes the chosen console server port and the status into it.
\<close>

definition consoleport_connect ::
  "component table \<Rightarrow> console_port table \<Rightarrow> nat \<Rightarrow> connect_request \<Rightarrow> console_port table \<times> conn_response" where
  "consoleport_connect cs_ports console_ports pk request =
     (case get_object console_ports pk of
        None \<Rightarrow> (console_ports, Refused Http404)
      | Some consoleport \<Rightarrow>
          if connect_post request then
            (case get_object cs_ports (connect_peer request) of
               None \<Rightarrow> (console_ports, RenderPage)
             | Some consoleserverport \<Rightarrow>
                 if connection_form_valid console_ports pk (connect_peer request) then
                   (save console_ports pk
                      (consoleport\<lparr>cs_port := Some (connect_peer request),
                                   connection_status := Some (connect_status request)\<rparr>),
                    Done)
                 else (console_ports, Refused AlreadyConnectedError))
          else (console_ports, RenderPage))"

text \<open>
  The confirmation request of the disconnect and depopulate views: whether it is a POST
  and whether the posted \<open>ConfirmationForm\<close> is valid.
\<close>

record confirm_request =
  confirm_post :: bool
  confirm_valid :: bool

definition confirmed :: confirm_request where
  "confirmed = \<lparr>confirm_post = True, confirm_valid = True\<rparr>"

text \<open>
  \<open>consoleport_disconnect\<close>: a port without \<open>cs_port\<close> is refused with a warning before
  anything else; a confirmed POST clears \<open>cs_port\<close> and the status.
\<close>

definition consoleport_disconnect ::
  "console_port table \<Rightarrow> nat \<Rightarrow> confirm_request \<Rightarrow> console_port table \<times> conn_response" where
  "consoleport_disconnect console_ports pk request =
     (case get_object console_ports pk of
        None \<Rightarrow> (console_ports, Refused Http404)
      | Some consoleport \<Rightarrow>
          if cs_port consoleport = None then (console_ports, Refused NotConnectedError)
          else if confirm_post request \<and> confirm_valid request then
            (save console_ports pk (consoleport\<lparr>cs_port := None, connection_status := None\<rparr>),
             Done)
          else (console_ports, RenderPage))"

text \<open>
  \<open>consoleserverport_disconnect\<close>: without a connected console port the request is refused
  with a warning; a confirmed POST clears the link on the connected console port.
\<close>

definition consoleserverport_disconnect ::
  "component table \<Rightarrow> console_port table \<Rightarrow> nat \<Rightarrow> confirm_request \<Rightarrow> console_port table \<times> conn_response" where
  "consoleserverport_disconnect cs_ports console_ports pk request =
     (case get_object cs_ports pk of
        None \<Rightarrow> (console_ports, Refused Http404)
      | Some consoleserverport \<Rightarrow>
          (case find (\<lambda>(k, cp). cs_port cp = Some pk) console_ports of
             None \<Rightarrow> (console_ports, Refused NotConnectedError)
           | Some (k, consoleport) \<Rightarrow>
               if confirm_post request \<and> confirm_valid request then
                 (save console_ports k (consoleport\<lparr>cs_port := None, connection_status := None\<rparr>),
                  Done)
               else (console_ports, RenderPage)))"

subsection \<open>Tables with distinct primary keys\<close>

lemma set_save_distinct:
  assumes "distinct (map fst tbl)"
  shows "(k, r) \<in> set (save tbl a v) \<longleftrightarrow> (k = a \<and> r = v) \<or> (k \<noteq> a \<and> (k, r) \<in> set tbl)"
proof -
  have d: "distinct (map fst (AList.update a v tbl))"
    using assms by (rule distinct_update)
  have "(k, r) \<in> set (AList.update a v tbl) \<longleftrightarrow> map_of (AList.update a v tbl) k = Some r"
    using d by simp
  also have "\<dots> \<longleftrightarrow> ((map_of tbl)(a \<mapsto> v)) k = Some r"
    by (simp only: update_conv')
  also have "\<dots> \<longleftrightarrow> (k = a \<and> r = v) \<or> (k \<noteq> a \<and> (k, r) \<in> set tbl)"
    using assms by auto
  finally show ?thesis by (simp add: save_def)
qed

lemma get_object_save: "get_object (save tbl a v) k = (if k = a then Some v else get_object tbl k)"
  by (simp add: get_object_def save_def update_conv')

lemma distinct_save: "distinct (map fst tbl) \<Longrightarrow> distinct (map fst (save tbl a v))"
  by (simp add: save_def distinct_update)

lemma find_SomeD: "find P xs = Some x \<Longrightarrow> x \<in> set xs \<and> P x"
  by (induction xs) (auto split: if_splits)

lemma connected_console_None_iff:
  "connected_console tbl csp = None \<longleftrightarrow> (\<forall>(k, r) \<in> set tbl. cs_port r \<noteq> Some csp)"
  by (auto simp add: connected_console_def find_None_iff)

lemma connected_console_SomeI:
  assumes "(k, r) \<in> set tbl" "cs_port r = Some csp"
    and "\<forall>(k', r') \<in> set tbl. cs_port r' = Some csp \<longrightarrow> k' = k"
  shows "connected_console tbl csp = Some k"
proof (cases "find (\<lambda>(pk, cp). cs_port cp = Some csp) tbl")
  case None
  with assms(1,2) show ?thesis by (auto simp add: find_None_iff)
next
  case (Some p)
  then have "p \<in> set tbl" "cs_port (snd p) = Some csp"
    by (auto dest: find_SomeD)
  with assms(3) have "fst p = k" by (cases p) auto
  with Some show ?thesis by (simp add: connected_console_def)
qed

subsection \<open>Linking and unlinking\<close>

text \<open>The table after a console port has been linked to a free console server port.\<close>

lemma linked:
  assumes d: "distinct (map fst tbl)" and g: "get_object tbl a = Some row"
    and free: "connected_console tbl b = None"
    and t: "tbl' = save tbl a (row\<lparr>cs_port := Some b, connection_status := Some st\<rparr>)"
  shows "console_port_peer tbl' a = Some b" "connected_console tbl' b = Some a"
    "\<forall>(k', r') \<in> set tbl'. cs_port r' = Some b \<longrightarrow> k' = a"
proof -
  show "console_port_peer tbl' a = Some b"
    by (simp add: t console_port_peer_def get_object_save)
  show only: "\<forall>(k', r') \<in> set tbl'. cs_port r' = Some b \<longrightarrow> k' = a"
    using free by (auto simp add: t set_save_distinct [OF d] connected_console_None_iff)
  have "(a, row\<lparr>cs_port := Some b, connection_status := Some st\<rparr>) \<in> set tbl'"
    by (simp add: t set_save_distinct [OF d])
  with only show "connected_console tbl' b = Some a"
    by (intro connected_console_SomeI [where r = "row\<lparr>cs_port := Some b, connection_status := Some st\<rparr>"]) simp_all
qed

text \<open>Clearing the link on the console port clears it for both ends.\<close>

lemma unlinked:
  assumes d: "distinct (map fst tbl')"
    and only: "\<forall>(k', r') \<in> set tbl'. cs_port r' = Some b \<longrightarrow> k' = a"
    and t: "tbl'' = save tbl' a (row'\<lparr>cs_port := None, connection_status := None\<rparr>)"
  shows "console_port_peer tbl'' a = None" "connected_console tbl'' b = None"
    "\<exists>r. get_object tbl'' a = Some r \<and> connection_status r = None"
proof -
  show "console_port_peer tbl'' a = None"
    by (simp add: t console_port_peer_def get_object_save)
  show "\<exists>r. get_object tbl'' a = Some r \<and> connection_status r = None"
    by (simp add: t get_object_save)
  show "connected_console tbl'' b = None"
    using only by (auto simp add: t set_save_distinct [OF d] connected_console_None_iff)
qed


lemma connect_views:
  assumes "get_object tbl a = Some row" "get_object cs_ports b = Some crow"
  shows "consoleport_connect cs_ports tbl a \<lparr>connect_post = True, connect_peer = b, connect_status = s\<rparr>
           = (if console_port_peer tbl a = None \<and> connected_console tbl b = None
              then (save tbl a (row\<lparr>cs_port := Some b, connection_status := Some s\<rparr>), Done)
              else (tbl, Refused AlreadyConnectedError))"
    and "consoleserverport_connect cs_ports tbl b \<lparr>connect_post = True, connect_peer = a, connect_status = s\<rparr>
           = (if console_port_peer tbl a = None \<and> connected_console tbl b = None
              then (save tbl a (row\<lparr>cs_port := Some b, connection_status := Some s\<rparr>), Done)
              else (tbl, Refused AlreadyConnectedError))"
  using assms
  by (simp_all add: consoleport_connect_def consoleserverport_connect_def connection_form_valid_def)

lemma connect_Done:
  assumes "consoleport_connect cs_ports tbl a \<lparr>connect_post = True, connect_peer = b, connect_status = s\<rparr> = (tbl', Done)
           \<or> consoleserverport_connect cs_ports tbl b \<lparr>connect_post = True, connect_peer = a, connect_status = s\<rparr> = (tbl', Done)"
  obtains row crow where "get_object tbl a = Some row" "get_object cs_ports b = Some crow"
    "console_port_peer tbl a = None" "connected_console tbl b = None"
    "tbl' = save tbl a (row\<lparr>cs_port := Some b, connection_status := Some s\<rparr>)"
  using assms
  by (auto simp add: consoleport_connect_def consoleserverport_connect_def connection_form_valid_def
        split: option.splits if_splits)

lemma consoleport_disconnect_linked:
  assumes "get_object tbl' a = Some row'" "cs_port row' = Some b"
  shows "consoleport_disconnect tbl' a confirmed
           = (save tbl' a (row'\<lparr>cs_port := None, connection_status := None\<rparr>), Done)"
  using assms by (simp add: consoleport_disconnect_def confirmed_def)

lemma consoleserverport_disconnect_linked:
  assumes d: "distinct (map fst tbl')" and "get_object tbl' a = Some row'" "cs_port row' = Some b"
    and only: "\<forall>(k', r') \<in> set tbl'. cs_port r' = Some b \<longrightarrow> k' = a"
    and ex: "get_object cs_ports b = Some crow"
  shows "consoleserverport_disconnect cs_ports tbl' b confirmed
           = (save tbl' a (row'\<lparr>cs_port := None, connection_status := None\<rparr>), Done)"
proof -
  from d assms(2) have m: "(a, row') \<in> set tbl'" by (simp add: get_object_def)
  with assms(3) have "find (\<lambda>(k, cp). cs_port cp = Some b) tbl' \<noteq> None"
    by (auto simp add: find_None_iff)
  then obtain k r where f: "find (\<lambda>(k, cp). cs_port cp = Some b) tbl' = Some (k, r)" by auto
  from find_SomeD [OF f] have kr: "(k, r) \<in> set tbl'" "cs_port r = Some b" by auto
  with only have "k = a" by auto
  with kr(1) m d have "r = row'" by (auto dest: eq_key_imp_eq_value)
  with f \<open>k = a\<close> ex show ?thesis
    by (simp add: consoleserverport_disconnect_def confirmed_def)
qed

subsection \<open>Claims about connections\<close>

text \<open>
  Claim C6. A connect that involves a port which already has a peer fails with
  \<open>AlreadyConnectedError\<close> and leaves the connection state unchanged; connect succeeds only
  when both ports have no peer.

  For a console port \<open>a\<close> and a console server port \<open>b\<close> that both exist, the connect
  request posted from either side is refused, with the table of console ports unchanged,
  as soon as one of the two has a peer (so a port \<open>a\<close> connected to some other \<open>b'\<close> cannot be
  connected to \<open>b\<close>), and it succeeds exactly when neither has one.
\<close>

theorem connect_refused_when_connected:
  assumes "get_object tbl a = Some row" "get_object cs_ports b = Some crow"
    and "r1 = consoleport_connect cs_ports tbl a \<lparr>connect_post = True, connect_peer = b, connect_status = s\<rparr>"
    and "r2 = consoleserverport_connect cs_ports tbl b \<lparr>connect_post = True, connect_peer = a, connect_status = s\<rparr>"
  shows "(console_port_peer tbl a \<noteq> None \<or> connected_console tbl b \<noteq> None \<longrightarrow>
            r1 = (tbl, Refused AlreadyConnectedError) \<and> r2 = (tbl, Refused AlreadyConnectedError))
         \<and> (snd r1 = Done \<or> snd r2 = Done \<longrightarrow>
              console_port_peer tbl a = None \<and> connected_console tbl b = None)"
  by (simp add: assms(3,4) connect_views [OF assms(1,2)])

theorem connect_refused_when_connected_witness:
  "consoleport_connect [(7, \<lparr>device = 3, name = ''ttyS1''\<rparr>), (8, \<lparr>device = 3, name = ''ttyS2''\<rparr>)]
       [(1, \<lparr>device = 2, name = ''con0'', cs_port = Some 7, connection_status = Some Connected\<rparr>)] 1
       \<lparr>connect_post = True, connect_peer = 8, connect_status = Planned\<rparr>
     = ([(1, \<lparr>device = 2, name = ''con0'', cs_port = Some 7, connection_status = Some Connected\<rparr>)],
        Refused AlreadyConnectedError)
   \<and> consoleserverport_connect [(7, \<lparr>device = 3, name = ''ttyS1''\<rparr>), (8, \<lparr>device = 3, name = ''ttyS2''\<rparr>)]
       [(1, \<lparr>device = 2, name = ''con0'', cs_port = Some 7, connection_status = Some Connected\<rparr>)] 8
       \<lparr>connect_post = True, connect_peer = 1, connect_status = Planned\<rparr>
     = ([(1, \<lparr>device = 2, name = ''con0'', cs_port = Some 7, connection_status = Some Connected\<rparr>)],
        Refused AlreadyConnectedError)"
proof -
  let ?csps = "[(7, \<lparr>device = 3, name = ''ttyS1''\<rparr>), (8, \<lparr>device = 3, name = ''ttyS2''\<rparr>)]"
  let ?row = "\<lparr>device = 2, name = ''con0'', cs_port = Some 7, connection_status = Some Connected\<rparr>"
  let ?tbl = "[(1, ?row)]"
  have h1: "get_object ?tbl 1 = Some ?row" by (simp add: get_object_def)
  have h2: "get_object ?csps 8 = Some \<lparr>device = 3, name = ''ttyS2''\<rparr>" by (simp add: get_object_def)
  have h3: "console_port_peer ?tbl 1 \<noteq> None \<or> connected_console ?tbl 8 \<noteq> None"
    by (simp add: console_port_peer_def get_object_def)
  from connect_refused_when_connected [OF h1 h2 refl refl, of Planned] h3
  show ?thesis by blast
qed

text \<open>
  Claim C7. After a successful connect the peer relation is mutual: the peer of the
  console port is the console server port and the peer of the console server port is the
  console port. A disconnect that follows, posted from either side, succeeds and leaves
  both ports without a peer and the status cleared.

  The table of console ports has distinct primary keys.
\<close>

theorem connect_then_disconnect:
  assumes d: "distinct (map fst tbl)"
    and c: "consoleport_connect cs_ports tbl a \<lparr>connect_post = True, connect_peer = b, connect_status = s\<rparr> = (tbl', Done)
            \<or> consoleserverport_connect cs_ports tbl b \<lparr>connect_post = True, connect_peer = a, connect_status = s\<rparr> = (tbl', Done)"
  shows "console_port_peer tbl' a = Some b \<and> connected_console tbl' b = Some a
         \<and> snd (consoleport_disconnect tbl' a confirmed) = Done
         \<and> consoleserverport_disconnect cs_ports tbl' b confirmed = consoleport_disconnect tbl' a confirmed
         \<and> console_port_peer (fst (consoleport_disconnect tbl' a confirmed)) a = None
         \<and> connected_console (fst (consoleport_disconnect tbl' a confirmed)) b = None
         \<and> (\<exists>r. get_object (fst (consoleport_disconnect tbl' a confirmed)) a = Some r
                \<and> cs_port r = None \<and> connection_status r = None)"
proof -
  from c obtain row crow where g: "get_object tbl a = Some row"
    and ex: "get_object cs_ports b = Some crow"
    and free: "connected_console tbl b = None"
    and t: "tbl' = save tbl a (row\<lparr>cs_port := Some b, connection_status := Some s\<rparr>)"
    by (rule connect_Done)
  let ?row' = "row\<lparr>cs_port := Some b, connection_status := Some s\<rparr>"
  note l = linked [OF d g free t]
  have d': "distinct (map fst tbl')" using d by (simp add: t distinct_save)
  have g': "get_object tbl' a = Some ?row'" by (simp add: t get_object_save)
  have cb: "cs_port ?row' = Some b" by simp
  let ?tbl'' = "save tbl' a (?row'\<lparr>cs_port := None, connection_status := None\<rparr>)"
  have dis1: "consoleport_disconnect tbl' a confirmed = (?tbl'', Done)"
    by (rule consoleport_disconnect_linked [OF g' cb])
  have dis2: "consoleserverport_disconnect cs_ports tbl' b confirmed = (?tbl'', Done)"
    by (rule consoleserverport_disconnect_linked [OF d' g' cb l(3) ex])
  note u = unlinked [OF d' l(3) refl [of ?tbl'']]
  have r: "\<exists>r. get_object ?tbl'' a = Some r \<and> cs_port r = None \<and> connection_status r = None"
    by (simp add: get_object_save)
  from l(1,2) dis1 dis2 u(1,2) r show ?thesis by simp
qed

theorem connect_then_disconnect_witness:
  "console_port_peer [(1, \<lparr>device = 2, name = ''con0'', cs_port = Some 7, connection_status = Some Planned\<rparr>)] 1 = Some 7
   \<and> connected_console [(1, \<lparr>device = 2, name = ''con0'', cs_port = Some 7, connection_status = Some Planned\<rparr>)] 7 = Some 1
   \<and> consoleserverport_disconnect [(7, \<lparr>device = 3, name = ''ttyS1''\<rparr>)]
        [(1, \<lparr>device = 2, name = ''con0'', cs_port = Some 7, connection_status = Some Planned\<rparr>)] 7 confirmed
      = consoleport_disconnect
        [(1, \<lparr>device = 2, name = ''con0'', cs_port = Some 7, connection_status = Some Planned\<rparr>)] 1 confirmed
   \<and> consoleport_disconnect
        [(1, \<lparr>device = 2, name = ''con0'', cs_port = Some 7, connection_status = Some Planned\<rparr>)] 1 confirmed
      = ([(1, \<lparr>device = 2, name = ''con0'', cs_port = None, connection_status = None\<rparr>)], Done)"
proof -
  let ?csps = "[(7, \<lparr>device = 3, name = ''ttyS1''\<rparr>)]"
  let ?tbl = "[(1, \<lparr>device = 2, name = ''con0'', cs_port = None, connection_status = None\<rparr>)]"
  let ?tbl' = "[(1, \<lparr>device = 2, name = ''con0'', cs_port = Some 7, connection_status = Some Planned\<rparr>)]"
  have h1: "distinct (map fst ?tbl)" by simp
  have h2: "consoleport_connect ?csps ?tbl 1 \<lparr>connect_post = True, connect_peer = 7, connect_status = Planned\<rparr> = (?tbl', Done)
            \<or> consoleserverport_connect ?csps ?tbl 7 \<lparr>connect_post = True, connect_peer = 1, connect_status = Planned\<rparr> = (?tbl', Done)"
    by (simp add: consoleport_connect_def get_object_def connection_form_valid_def console_port_peer_def
          connected_console_def save_def)
  have e: "consoleport_disconnect ?tbl' 1 confirmed = (?tbl, Done)"
    by (simp add: consoleport_disconnect_def get_object_def confirmed_def save_def)
  from connect_then_disconnect [OF h1 h2] e show ?thesis by simp
qed

section \<open>Device bays (dcim/views.py)\<close>

text \<open>
  A device as the record store holds it (the persisted shape of the specification): the
  rack it is placed in, the starting unit, the mounted face, the height in units and the
  face orientation of its type.
\<close>

datatype face = Front | Rear

datatype face_orientation = FrontOnly | RearOnly | BothFaces

record device =
  rack :: "nat option"
  position :: "nat option"
  face :: "face option"
  height_units :: nat
  face_orientation :: face_orientation

text \<open>
  A device bay is a component of its parent device (the field \<open>device\<close>) and refers to the
  child device installed in it, if any.
\<close>

record device_bay = component +
  installed_device :: "nat option"

record dcim =
  devices :: "device table"
  device_bays :: "device_bay table"

text \<open>
  \<open>ChildDeviceBulkImportView.save_obj\<close>: the imported device \<open>obj\<close> takes the rack of the
  parent device of its bay and is saved (under the new primary key \<open>new_pk\<close>), then the bay
  gets it as installed device and is saved. A bay or parent device that does not exist
  ends the call with an exception (\<open>None\<close>).
\<close>

definition save_obj :: "dcim \<Rightarrow> nat \<Rightarrow> device \<Rightarrow> nat \<Rightarrow> dcim option" where
  "save_obj st new_pk obj parent_bay =
     (case get_object (device_bays st) parent_bay of
        None \<Rightarrow> None
      | Some device_bay \<Rightarrow>
          (case get_object (devices st) (device device_bay) of
             None \<Rightarrow> None
           | Some parent \<Rightarrow>
               Some (st\<lparr>devices := save (devices st) new_pk (obj\<lparr>rack := rack parent\<rparr>),
                        device_bays := save (device_bays st) parent_bay
                                         (device_bay\<lparr>installed_device := Some new_pk\<rparr>)\<rparr>)))"

text \<open>
  The posted \<open>PopulateDeviceBayForm\<close> (forms.py, not among the sources): whether the request
  is a POST and, for a valid form, the device chosen as \<open>installed_device\<close>.
\<close>

record populate_request =
  populate_post :: bool
  populate_device :: "nat option"

text \<open>
  \<open>devicebay_populate\<close>: a valid posted form sets the bay's installed device and saves the
  bay. Nothing else is written.
\<close>

definition devicebay_populate :: "dcim \<Rightarrow> nat \<Rightarrow> populate_request \<Rightarrow> dcim \<times> conn_response" where
  "devicebay_populate st pk request =
     (case get_object (device_bays st) pk of
        None \<Rightarrow> (st, Refused Http404)
      | Some device_bay \<Rightarrow>
          if populate_post request then
            (case populate_device request of
               None \<Rightarrow> (st, RenderPage)
             | Some child \<Rightarrow>
                 (st\<lparr>device_bays := save (device_bays st) pk
                                       (device_bay\<lparr>installed_device := Some child\<rparr>)\<rparr>,
                  Done))
          else (st, RenderPage))"

text \<open>
  \<open>devicebay_depopulate\<close>: a confirmed POST clears the bay's installed device and saves the
  bay, whatever the bay held.
\<close>

definition devicebay_depopulate :: "dcim \<Rightarrow> nat \<Rightarrow> confirm_request \<Rightarrow> dcim \<times> conn_response" where
  "devicebay_depopulate st pk request =
     (case get_object (device_bays st) pk of
        None \<Rightarrow> (st, Refused Http404)
      | Some device_bay \<Rightarrow>
          if confirm_post request \<and> confirm_valid request then
            (st\<lparr>device_bays := save (device_bays st) pk (device_bay\<lparr>installed_device := None\<rparr>)\<rparr>,
             Done)
          else (st, RenderPage))"

subsection \<open>Install and removal\<close>

lemma save_obj_inherits_rack:
  assumes "get_object (device_bays st) b = Some device_bay"
    and "get_object (devices st) (device device_bay) = Some parent"
  shows "\<exists>st'. save_obj st d obj b = Some st'
           \<and> map_option rack (get_object (devices st') d) = Some (rack parent)
           \<and> map_option installed_device (get_object (device_bays st') b) = Some (Some d)"
  using assms by (simp add: save_obj_def get_object_save)

lemma devicebay_populate_devices:
  "devices (fst (devicebay_populate st pk request)) = devices st"
  by (simp add: devicebay_populate_def split: option.splits)

lemma devicebay_depopulate_devices:
  "devices (fst (devicebay_depopulate st pk request)) = devices st"
  by (simp add: devicebay_depopulate_def split: option.splits)

lemma devicebay_depopulate_clears:
  assumes "get_object (device_bays st) pk = Some device_bay"
  shows "snd (devicebay_depopulate st pk confirmed) = Done
         \<and> map_option installed_device
              (get_object (device_bays (fst (devicebay_depopulate st pk confirmed))) pk) = Some None"
  using assms by (simp add: devicebay_depopulate_def confirmed_def get_object_save)

subsection \<open>Claims about device bays\<close>

text \<open>
  Claim C8. Every install of a child device into a bay whose parent device is placed in
  rack R sets the child's rack to R, on every install path; a removal that follows leaves
  the child's rack at R and changes no field of the child.

  The import path does it (\<open>save_obj_inherits_rack\<close>), and a removal writes no device
  (\<open>devicebay_depopulate_devices\<close>). The populate view writes only the bay: the parent
  device 1 is in rack 7, the child device 2 is in no rack, and after device 2 has been
  installed into bay 5 of device 1 its rack is still empty.
\<close>

theorem devicebay_populate_keeps_child_rack:
  "devicebay_populate
     \<lparr>devices = [(1, \<lparr>rack = Some 7, position = Some 1, face = Some Front, height_units = 4,
                      face_orientation = BothFaces\<rparr>),
                 (2, \<lparr>rack = None, position = None, face = None, height_units = 0,
                      face_orientation = FrontOnly\<rparr>)],
      device_bays = [(5, \<lparr>device = 1, name = ''bay1'', installed_device = None\<rparr>)]\<rparr>
     5 \<lparr>populate_post = True, populate_device = Some 2\<rparr>
   = (\<lparr>devices = [(1, \<lparr>rack = Some 7, position = Some 1, face = Some Front, height_units = 4,
                        face_orientation = BothFaces\<rparr>),
                   (2, \<lparr>rack = None, position = None, face = None, height_units = 0,
                        face_orientation = FrontOnly\<rparr>)],
        device_bays = [(5, \<lparr>device = 1, name = ''bay1'', installed_device = Some 2\<rparr>)]\<rparr>,
      Done)"
  by (simp add: devicebay_populate_def get_object_def save_def)

text \<open>
  Claim C10. Removing the installed device from a bay that is already empty does not fail:
  a confirmed POST to \<open>devicebay_depopulate\<close> answers with the success message and leaves
  the store as it was, while \<open>consoleport_disconnect\<close> refuses a console port that is not
  connected, with a warning, whatever the request.
\<close>

theorem devicebay_depopulate_empty_bay:
  assumes "get_object (device_bays st) pk = Some device_bay" "installed_device device_bay = None"
    and "get_object console_ports k = Some consoleport" "cs_port consoleport = None"
  shows "devicebay_depopulate st pk confirmed = (st, Done)
         \<and> consoleport_disconnect console_ports k request = (console_ports, Refused NotConnectedError)"
proof -
  from assms(2) have "device_bay\<lparr>installed_device := None\<rparr> = device_bay" by simp
  moreover from assms(1) have "save (device_bays st) pk device_bay = device_bays st"
    by (simp add: save_def get_object_def update_triv)
  ultimately have "devicebay_depopulate st pk confirmed = (st, Done)"
    using assms(1) by (simp add: devicebay_depopulate_def confirmed_def)
  moreover have "consoleport_disconnect console_ports k request = (console_ports, Refused NotConnectedError)"
    using assms(3,4) by (simp add: consoleport_disconnect_def)
  ultimately show ?thesis by simp
qed

theorem devicebay_depopulate_empty_bay_witness:
  "devicebay_depopulate
     \<lparr>devices = [], device_bays = [(5, \<lparr>device = 1, name = ''bay1'', installed_device = None\<rparr>)]\<rparr> 5 confirmed
   = (\<lparr>devices = [], device_bays = [(5, \<lparr>device = 1, name = ''bay1'', installed_device = None\<rparr>)]\<rparr>, Done)
   \<and> consoleport_disconnect
       [(1, \<lparr>device = 2, name = ''con0'', cs_port = None, connection_status = None\<rparr>)] 1 confirmed
     = ([(1, \<lparr>device = 2, name = ''con0'', cs_port = None, connection_status = None\<rparr>)],
        Refused NotConnectedError)"
proof -
  let ?bay = "\<lparr>device = 1, name = ''bay1'', installed_device = None\<rparr>"
  let ?st = "\<lparr>devices = [], device_bays = [(5, ?bay)]\<rparr>"
  let ?cp = "\<lparr>device = 2, name = ''con0'', cs_port = None, connection_status = None\<rparr>"
  have h1: "get_object (device_bays ?st) 5 = Some ?bay" by (simp add: get_object_def)
  have h2: "installed_device ?bay = None" by simp
  have h3: "get_object [(1, ?cp)] 1 = Some ?cp" by (simp add: get_object_def)
  have h4: "cs_port ?cp = None" by simp
  from devicebay_depopulate_empty_bay [OF h1 h2 h3 h4, of confirmed]
  show ?thesis .
qed

section \<open>Rack elevation\<close>

text \<open>
  The view \<open>rack\<close> renders \<open>rack.get_front_elevation()\<close> and \<open>rack.get_rear_elevation()\<close>. Both
  are methods of the model class \<open>Rack\<close> in models.py, which is not among the sources; the
  builder below follows the specification (section 4.3).
\<close>

datatype numbering = Ascending | Descending

record rack_record =
  height :: nat
  numbering :: numbering

datatype slot = Empty | Occupied nat

datatype elevation_error = LayoutConflict

text \<open>
  Modelled from the spec: a device is on a face when its face orientation is "both" or
  when that face is its mounted face; it is placed when it is on the face, has a height
  above 0 ("devices with height 0 are excluded from elevation output entirely") and a
  position; it then occupies the units \<open>position\<close> to \<open>position + height - 1\<close>.
\<close>

definition on_face :: "face \<Rightarrow> device \<Rightarrow> bool" where
  "on_face f d = (face_orientation d = BothFaces \<or> face d = Some f)"

definition placed :: "face \<Rightarrow> device \<Rightarrow> bool" where
  "placed f d = (on_face f d \<and> 0 < height_units d \<and> position d \<noteq> None)"

definition occupies :: "device \<Rightarrow> nat \<Rightarrow> bool" where
  "occupies d u =
     (case position d of
        None \<Rightarrow> False
      | Some p \<Rightarrow> p \<le> u \<and> u < p + height_units d)"

text \<open>
  Modelled from the spec: "unit-range overlap on the same face" between two devices, and
  its detection over the sequence of placed devices: each device against all later ones.
\<close>

definition overlap :: "device \<Rightarrow> device \<Rightarrow> bool" where
  "overlap d1 d2 =
     (case (position d1, position d2) of
        (Some p1, Some p2) \<Rightarrow> p1 < p2 + height_units d2 \<and> p2 < p1 + height_units d1
      | _ \<Rightarrow> False)"

fun has_conflict :: "device list \<Rightarrow> bool" where
  "has_conflict [] = False"
| "has_conflict (d # ds) = (list_ex (overlap d) ds \<or> has_conflict ds)"

text \<open>
  Modelled from the spec: the unit numbers of the slots, in the rack's numbering
  direction, and \<open>buildElevation(rack, devices, face)\<close>: \<open>LayoutConflict\<close> when two placed
  devices overlap, otherwise exactly \<open>rack.height\<close> slots, each empty or occupied by the
  device that covers the unit.
\<close>

definition units :: "rack_record \<Rightarrow> nat list" where
  "units r = (case numbering r of
                Ascending \<Rightarrow> [1 ..< Suc (height r)]
              | Descending \<Rightarrow> rev [1 ..< Suc (height r)])"

definition slot_at :: "device table \<Rightarrow> nat \<Rightarrow> slot" where
  "slot_at ds u = (case find (\<lambda>(k, d). occupies d u) ds of
                     None \<Rightarrow> Empty
                   | Some (k, d) \<Rightarrow> Occupied k)"

definition buildElevation :: "rack_record \<Rightarrow> device table \<Rightarrow> face \<Rightarrow> elevation_error + slot list" where
  "buildElevation r ds f =
     (let shown = filter (\<lambda>(k, d). placed f d) ds
      in if has_conflict (map snd shown) then Inl LayoutConflict
         else Inr (map (slot_at shown) (units r)))"

text \<open>
  The view \<open>rack\<close> (dcim/views.py): the rack is looked up, both elevations are built over
  the devices whose rack it is, and the page is rendered; an exception of a builder ends
  the view. The view writes nothing: the table of devices it returns is the one it got.
\<close>

datatype rack_page = Http404Page | Page "slot list" "slot list"

definition rack_view ::
  "rack_record table \<Rightarrow> device table \<Rightarrow> nat \<Rightarrow> device table \<times> (elevation_error + rack_page)" where
  "rack_view racks ds pk =
     (case get_object racks pk of
        None \<Rightarrow> (ds, Inr Http404Page)
      | Some r \<Rightarrow>
          (let mounted = filter (\<lambda>(k, d). rack d = Some pk) ds
           in case buildElevation r mounted Front of
                Inl e \<Rightarrow> (ds, Inl e)
              | Inr front_elevation \<Rightarrow>
                  (case buildElevation r mounted Rear of
                     Inl e \<Rightarrow> (ds, Inl e)
                   | Inr rear_elevation \<Rightarrow> (ds, Inr (Page front_elevation rear_elevation)))))"

subsection \<open>Detection of overlap\<close>

lemma has_conflict_append: "has_conflict ys \<Longrightarrow> has_conflict (xs @ ys)"
  by (induction xs) auto

lemma has_conflict_pair:
  assumes "overlap d1 d2"
  shows "has_conflict (xs @ d1 # ys @ d2 # zs)"
proof -
  from assms have "has_conflict (d1 # ys @ d2 # zs)" by (auto simp add: list_ex_iff)
  then show ?thesis by (rule has_conflict_append)
qed

lemma occupies_overlap:
  assumes "occupies d1 u" "occupies d2 u"
  shows "overlap d1 d2"
  using assms by (auto simp add: occupies_def overlap_def split: option.splits)

lemma occupies_placed:
  "on_face f d \<Longrightarrow> occupies d u \<Longrightarrow> placed f d"
  by (auto simp add: placed_def occupies_def split: option.splits)

lemma rack_view_devices: "fst (rack_view racks ds pk) = ds"
  by (simp add: rack_view_def Let_def split: option.splits sum.splits)

subsection \<open>Claim about the elevation\<close>

text \<open>
  Claim C9. A rack elevation built over devices whose occupied unit ranges overlap on the
  same face raises \<open>LayoutConflict\<close>; the builder never changes a placement; two devices
  on opposite faces that share units are not a conflict.

  Two entries of the device sequence that are both on face \<open>f\<close> and both occupy a unit \<open>u\<close>
  make the elevation of \<open>f\<close> a \<open>LayoutConflict\<close>. Two devices that are each on one face
  only, one mounted at the front and one at the rear, give an elevation for either face,
  whatever their units. The view returns the table of devices as it got it.
\<close>

theorem elevation_overlap_is_conflict:
  assumes "ds = as @ (k1, d1) # bs @ (k2, d2) # cs"
    and "on_face f d1" "on_face f d2" "occupies d1 u" "occupies d2 u"
    and "face_orientation e1 \<noteq> BothFaces" "face e1 = Some Front"
    and "face_orientation e2 \<noteq> BothFaces" "face e2 = Some Rear"
  shows "buildElevation r ds f = Inl LayoutConflict
         \<and> buildElevation r [(j1, e1), (j2, e2)] g \<noteq> Inl LayoutConflict
         \<and> fst (rack_view racks ds pk) = ds"
proof -
  have p1: "placed f d1" and p2: "placed f d2"
    using assms(2-5) by (simp_all add: occupies_placed)
  have "map snd (filter (\<lambda>(k, d). placed f d) ds)
          = map snd (filter (\<lambda>(k, d). placed f d) as) @ d1
              # map snd (filter (\<lambda>(k, d). placed f d) bs) @ d2
              # map snd (filter (\<lambda>(k, d). placed f d) cs)"
    using p1 p2 by (simp add: assms(1))
  moreover have "overlap d1 d2" using assms(4,5) by (rule occupies_overlap)
  ultimately have "has_conflict (map snd (filter (\<lambda>(k, d). placed f d) ds))"
    by (simp add: has_conflict_pair)
  then have 1: "buildElevation r ds f = Inl LayoutConflict"
    by (simp add: buildElevation_def)
  have "\<not> (placed g e1 \<and> placed g e2)"
    using assms(6-9) by (cases g) (auto simp add: placed_def on_face_def)
  then have 2: "buildElevation r [(j1, e1), (j2, e2)] g \<noteq> Inl LayoutConflict"
    by (auto simp add: buildElevation_def)
  from 1 2 show ?thesis by (simp add: rack_view_devices)
qed

theorem elevation_overlap_is_conflict_witness:
  "buildElevation \<lparr>height = 4, numbering = Ascending\<rparr>
     [(1, \<lparr>rack = Some 1, position = Some 1, face = Some Front, height_units = 2, face_orientation = FrontOnly\<rparr>),
      (2, \<lparr>rack = Some 1, position = Some 2, face = Some Front, height_units = 1, face_orientation = FrontOnly\<rparr>)]
     Front = Inl LayoutConflict
   \<and> buildElevation \<lparr>height = 4, numbering = Ascending\<rparr>
     [(1, \<lparr>rack = Some 1, position = Some 1, face = Some Front, height_units = 2, face_orientation = FrontOnly\<rparr>),
      (3, \<lparr>rack = Some 1, position = Some 1, face = Some Rear, height_units = 1, face_orientation = RearOnly\<rparr>)]
     Front = Inr [Occupied 1, Occupied 1, Empty, Empty]
   \<and> buildElevation \<lparr>height = 4, numbering = Ascending\<rparr>
     [(1, \<lparr>rack = Some 1, position = Some 1, face = Some Front, height_units = 2, face_orientation = FrontOnly\<rparr>),
      (3, \<lparr>rack = Some 1, position = Some 1, face = Some Rear, height_units = 1, face_orientation = RearOnly\<rparr>)]
     Rear = Inr [Occupied 3, Empty, Empty, Empty]"
proof -
  let ?r = "\<lparr>height = 4, numbering = Ascending\<rparr>"
  let ?d1 = "\<lparr>rack = Some 1, position = Some 1, face = Some Front, height_units = 2, face_orientation = FrontOnly\<rparr>"
  let ?d2 = "\<lparr>rack = Some 1, position = Some 2, face = Some Front, height_units = 1, face_orientation = FrontOnly\<rparr>"
  let ?d3 = "\<lparr>rack = Some 1, position = Some 1, face = Some Rear, height_units = 1, face_orientation = RearOnly\<rparr>"
  have h1: "[(1, ?d1), (2, ?d2)] = [] @ (1, ?d1) # [] @ (2, ?d2) # []" by simp
  have h2: "on_face Front ?d1" and h3: "on_face Front ?d2" by (simp_all add: on_face_def)
  have h4: "occupies ?d1 2" and h5: "occupies ?d2 2" by (simp_all add: occupies_def)
  have h6: "face_orientation ?d1 \<noteq> BothFaces" and h7: "face ?d1 = Some Front"
    and h8: "face_orientation ?d3 \<noteq> BothFaces" and h9: "face ?d3 = Some Rear"
    by simp_all
  from elevation_overlap_is_conflict [OF h1 h2 h3 h4 h5 h6 h7 h8 h9, of ?r 1 3 Front]
  have c: "buildElevation ?r [(1, ?d1), (2, ?d2)] Front = Inl LayoutConflict" by blast
  have front: "buildElevation ?r [(1, ?d1), (3, ?d3)] Front = Inr [Occupied 1, Occupied 1, Empty, Empty]"
    by code_simp
  have rear: "buildElevation ?r [(1, ?d1), (3, ?d3)] Rear = Inr [Occupied 3, Empty, Empty, Empty]"
    by code_simp
  from c front rear show ?thesis by simp
qed

end
